theory Spec2Isabelle
  imports Main
begin

section \<open>Text: the string operations of the scraper\<close>

text \<open>
  Text is modelled as ASCII strings. \<open>lower\<close>, \<open>upper\<close> and \<open>strip\<close> are Python's
  \<^verbatim>\<open>str.lower\<close>, \<^verbatim>\<open>str.upper\<close> and \<^verbatim>\<open>str.strip\<close> on that range; \<open>contains\<close> is the
  substring test \<^verbatim>\<open>needle in hay\<close>.
\<close>

definition is_space :: "char \<Rightarrow> bool" where
  "is_space c = (let n = (of_char c :: nat) in (9 \<le> n \<and> n \<le> 13) \<or> (28 \<le> n \<and> n \<le> 32))"

definition is_digit :: "char \<Rightarrow> bool" where
  "is_digit c = (let n = (of_char c :: nat) in 48 \<le> n \<and> n \<le> 57)"

definition digit_val :: "char \<Rightarrow> int" where
  "digit_val c = int (of_char c) - 48"

definition lower_char :: "char \<Rightarrow> char" where
  "lower_char c = (let n = (of_char c :: nat) in if 65 \<le> n \<and> n \<le> 90 then char_of (n + 32) else c)"

definition upper_char :: "char \<Rightarrow> char" where
  "upper_char c = (let n = (of_char c :: nat) in if 97 \<le> n \<and> n \<le> 122 then char_of (n - 32) else c)"

definition lower :: "string \<Rightarrow> string" where
  "lower s = map lower_char s"

definition upper :: "string \<Rightarrow> string" where
  "upper s = map upper_char s"

definition strip :: "string \<Rightarrow> string" where
  "strip s = rev (dropWhile is_space (rev (dropWhile is_space s)))"

fun starts_with :: "string \<Rightarrow> string \<Rightarrow> bool" where
  "starts_with [] s = True"
| "starts_with (p # ps) [] = False"
| "starts_with (p # ps) (c # cs) = (p = c \<and> starts_with ps cs)"

fun contains :: "string \<Rightarrow> string \<Rightarrow> bool" where
  "contains needle [] = (needle = [])"
| "contains needle (c # cs) = (starts_with needle (c # cs) \<or> contains needle cs)"

text \<open>
  \<^verbatim>\<open>re.search(KEY + r"(\d+)", s)\<close> for a literal, non-empty \<open>KEY\<close>: the leftmost
  position where \<open>KEY\<close> is followed by at least one digit; group 1 is the longest run
  of digits there.
\<close>

fun re_search_digits :: "string \<Rightarrow> string \<Rightarrow> string option" where
  "re_search_digits key [] = None"
| "re_search_digits key (c # cs) =
     (if starts_with key (c # cs) \<and> takeWhile is_digit (drop (length key) (c # cs)) \<noteq> []
      then Some (takeWhile is_digit (drop (length key) (c # cs)))
      else re_search_digits key cs)"

text \<open>\<^verbatim>\<open>int(digits)\<close> on a run of decimal digits, most significant first. Python's integers
  are unbounded; the interpreter's optional limit on the length of a decimal literal is
  not modelled, here and in \<open>py_int\<close> below.\<close>

fun int_of_digits :: "int \<Rightarrow> string \<Rightarrow> int" where
  "int_of_digits acc [] = acc"
| "int_of_digits acc (d # ds) = int_of_digits (10 * acc + digit_val d) ds"

text \<open>
  \<^verbatim>\<open>int(s)\<close> on arbitrary text: surrounding whitespace is ignored, one sign is allowed,
  and single underscores may separate digits. \<open>None\<close> is the \<^verbatim>\<open>ValueError\<close>.
\<close>

fun digit_run :: "int \<Rightarrow> string \<Rightarrow> int option" where
  "digit_run acc [] = Some acc"
| "digit_run acc (c # cs) =
     (if is_digit c then digit_run (10 * acc + digit_val c) cs
      else if c = CHR ''_'' then
        (case cs of
           [] \<Rightarrow> None
         | d # ds \<Rightarrow> if is_digit d then digit_run (10 * acc + digit_val d) ds else None)
      else None)"

definition unsigned_int :: "string \<Rightarrow> int option" where
  "unsigned_int s =
     (case s of
        [] \<Rightarrow> None
      | d # ds \<Rightarrow> if is_digit d then digit_run (digit_val d) ds else None)"

definition py_int :: "string \<Rightarrow> int option" where
  "py_int s =
     (case strip s of
        [] \<Rightarrow> None
      | c # cs \<Rightarrow>
          if c = CHR ''-'' then map_option uminus (unsigned_int cs)
          else if c = CHR ''+'' then unsigned_int cs
          else unsigned_int (c # cs))"

text \<open>\<^verbatim>\<open>str(n)\<close> for a non-negative integer, as the f-strings print a page number or a count.\<close>

fun str_nat :: "nat \<Rightarrow> string" where
  "str_nat n = (if n < 10 then [char_of (48 + n)] else str_nat (n div 10) @ [char_of (48 + n mod 10)])"

declare str_nat.simps [simp del]

definition str_int :: "int \<Rightarrow> string" where
  "str_int i = (if i < 0 then CHR ''-'' # str_nat (nat (- i)) else str_nat (nat i))"

section \<open>The parsed document\<close>

text \<open>
  A parsed HTML document as the parser library hands it to the scraper: text nodes and
  elements; an element has a tag name, its attributes (other than \<open>class\<close>), the list
  of its classes, and its children in document order. The document object is itself a
  node, the root. \<^verbatim>\<open>find_all\<close> and \<^verbatim>\<open>find\<close> search below the node they are called on, in
  document order, and never return that node itself. Comments and the content of script
  and style elements are not text nodes of this model.
\<close>

datatype node = Text string | Element string "(string \<times> string) list" "string list" "node list"

fun descendants :: "node \<Rightarrow> node list" where
  "descendants (Text s) = []"
| "descendants (Element t a c ch) = concat (map (\<lambda>n. n # descendants n) ch)"

fun is_tag :: "string \<Rightarrow> node \<Rightarrow> bool" where
  "is_tag t (Text s) = False"
| "is_tag t (Element t' a c ch) = (t' = t)"

fun attr :: "string \<Rightarrow> node \<Rightarrow> string option" where
  "attr k (Text s) = None"
| "attr k (Element t a c ch) = map_of a k"

fun has_class :: "string \<Rightarrow> node \<Rightarrow> bool" where
  "has_class k (Text s) = False"
| "has_class k (Element t a c ch) = (k \<in> set c)"

definition find_all :: "(node \<Rightarrow> bool) \<Rightarrow> node \<Rightarrow> node list" where
  "find_all p n = filter p (descendants n)"

definition find_first :: "(node \<Rightarrow> bool) \<Rightarrow> node \<Rightarrow> node option" where
  "find_first p n = (case find_all p n of [] \<Rightarrow> None | x # xs \<Rightarrow> Some x)"

fun text_of :: "node \<Rightarrow> string list" where
  "text_of (Text s) = [s]"
| "text_of (Element t a c ch) = []"

text \<open>\<^verbatim>\<open>tag.get_text(strip=True)\<close>: every text fragment below the tag, stripped, the
  empty ones dropped, joined without a separator.\<close>

definition get_text_strip :: "node \<Rightarrow> string" where
  "get_text_strip n =
     concat (filter (\<lambda>s. s \<noteq> []) (map strip (concat (map text_of (descendants n)))))"

section \<open>Total-Count Resolver\<close>

text \<open>
  The two loops of \<^verbatim>\<open>get_total_journals\<close> are the same loop over the links' targets with
  a different parameter name: a running maximum that starts at 0 and is replaced by a
  strictly larger value.
\<close>

fun max_param :: "string \<Rightarrow> string list \<Rightarrow> int \<Rightarrow> int" where
  "max_param key [] m = m"
| "max_param key (href # hrefs) m =
     (case re_search_digits key href of
        None \<Rightarrow> max_param key hrefs m
      | Some d \<Rightarrow>
          (let val = int_of_digits 0 d
           in if val > m then max_param key hrefs val else max_param key hrefs m))"

definition all_links :: "node \<Rightarrow> string list" where
  "all_links soup = List.map_filter (attr ''href'') (find_all (is_tag ''a'') soup)"

definition get_total_journals :: "node \<Rightarrow> int option" where
  "get_total_journals soup =
     (let max_total_size = max_param ''total_size='' (all_links soup) 0
      in if max_total_size > 0 then Some max_total_size
         else (let max_page = max_param ''page='' (all_links soup) 0
               in if max_page > 0 then Some (max_page * 50) else None))"

text \<open>The integers the resolver reads: for each link target, the value of the first
  \<open>key<digits>\<close> occurrence, for the links that have one.\<close>

definition param_values :: "string \<Rightarrow> string list \<Rightarrow> int list" where
  "param_values key hrefs =
     List.map_filter (\<lambda>h. map_option (int_of_digits 0) (re_search_digits key h)) hrefs"

section \<open>Exceptions and the network\<close>

text \<open>
  A computation that may raise returns \<open>exn + 'a\<close>, \<open>Inl\<close> the exception.
  \<^verbatim>\<open>requests.get\<close> is the parameter \<open>http\<close>: \<open>None\<close> when the request raises, otherwise
  the status code and the document that \<^verbatim>\<open>BeautifulSoup(resp.content, "html.parser")\<close>
  builds from the body. One run of an operation requests an address at most once, so a
  function from addresses (and query parameters) to outcomes describes the network during
  the run. \<open>catch_all\<close> is \<^verbatim>\<open>try: ... except Exception as e: ...\<close>.
\<close>

datatype exn = IndexError | KeyError | AttributeError | ValueError | TypeError
  | ZeroDivisionError | OverflowError | RequestException

record response =
  status_code :: int
  content :: node

type_synonym http = "string \<Rightarrow> (string \<times> string) list \<Rightarrow> response option"

definition catch_all :: "exn + 'a \<Rightarrow> (exn \<Rightarrow> exn + 'a) \<Rightarrow> exn + 'a" where
  "catch_all body handler = (case body of Inl e \<Rightarrow> handler e | Inr v \<Rightarrow> Inr v)"

section \<open>Category Resolver\<close>

definition search_url :: string where
  "search_url = ''https://www.scimagojr.com/journalsearch.php''"

definition is_search_results :: "node \<Rightarrow> bool" where
  "is_search_results n = (is_tag ''div'' n \<and> has_class ''search_results'' n)"

definition is_jrnlname :: "node \<Rightarrow> bool" where
  "is_jrnlname n = (is_tag ''span'' n \<and> has_class ''jrnlname'' n)"

text \<open>The candidate of \<^verbatim>\<open>journal_ranking.py\<close>: the first link of the first results
  container. The result is the pair \<open>(journal_link, real_title)\<close>, \<open>None\<close> while both
  variables are still \<^verbatim>\<open>None\<close>.\<close>

definition select_candidate_cli :: "node \<Rightarrow> exn + (string \<times> string) option" where
  "select_candidate_cli soup =
     (case find_all is_search_results soup of
        [] \<Rightarrow> Inr None
      | first_div # other_divs \<Rightarrow>
          (case find_first (is_tag ''a'') first_div of
             None \<Rightarrow> Inr None
           | Some first_result \<Rightarrow>
               (case attr ''href'' first_result of
                  None \<Rightarrow> Inl KeyError
                | Some journal_link \<Rightarrow>
                    (case find_first is_jrnlname first_result of
                       None \<Rightarrow> Inl AttributeError
                     | Some title_span \<Rightarrow> Inr (Some (journal_link, get_text_strip title_span))))))"

text \<open>The candidate of \<^verbatim>\<open>ranking_app.py\<close>: the loop over all links of the first results
  container; \<open>cur\<close> is the pair assigned so far.\<close>

fun select_loop_app :: "string \<Rightarrow> node list \<Rightarrow> (string \<times> string) option
    \<Rightarrow> exn + (string \<times> string) option" where
  "select_loop_app journal_name [] cur = Inr cur"
| "select_loop_app journal_name (result # results) cur =
     (case attr ''href'' result of
        None \<Rightarrow> Inl KeyError
      | Some journal_link \<Rightarrow>
          (case find_first is_jrnlname result of
             None \<Rightarrow> Inl AttributeError
           | Some title_span \<Rightarrow>
               (let real_title = get_text_strip title_span
                in if lower real_title = lower journal_name
                   then Inr (Some (journal_link, real_title))
                   else select_loop_app journal_name results (Some (journal_link, real_title)))))"

definition select_candidate_app :: "string \<Rightarrow> node \<Rightarrow> exn + (string \<times> string) option" where
  "select_candidate_app journal_name soup =
     (case find_all is_search_results soup of
        [] \<Rightarrow> Inl IndexError
      | first_div # other_divs \<Rightarrow> select_loop_app journal_name (find_all (is_tag ''a'') first_div) None)"

definition absolute_url :: "string \<Rightarrow> string" where
  "absolute_url journal_link =
     (if starts_with ''http'' journal_link then journal_link
      else ''https://www.scimagojr.com/'' @ journal_link)"

definition is_cat_link :: "node \<Rightarrow> bool" where
  "is_cat_link n =
     (is_tag ''a'' n \<and>
      (case attr ''href'' n of
         None \<Rightarrow> False
       | Some href \<Rightarrow> href \<noteq> [] \<and> contains ''journalrank.php?category='' href))"

definition cat_id_of_href :: "string \<Rightarrow> string" where
  "cat_id_of_href href =
     (case re_search_digits ''category='' href of Some d \<Rightarrow> d | None \<Rightarrow> ''Unknown'')"

text \<open>\<^verbatim>\<open>category_map\<close> is a dictionary that is later read in insertion order: an
  association list, extended at the end when the key is new.\<close>

fun category_map_loop :: "node list \<Rightarrow> (string \<times> string) list \<Rightarrow> exn + (string \<times> string) list" where
  "category_map_loop [] category_map = Inr category_map"
| "category_map_loop (link # links) category_map =
     (let cat_name = get_text_strip link
      in case attr ''href'' link of
           None \<Rightarrow> Inl KeyError
         | Some href \<Rightarrow>
             (let cat_id = cat_id_of_href href
              in if map_of category_map cat_id = None
                 then category_map_loop links (category_map @ [(cat_id, cat_name)])
                 else category_map_loop links category_map))"

record category_info =
  c_name :: string
  c_id :: string

definition categories_data :: "(string \<times> string) list \<Rightarrow> category_info list" where
  "categories_data category_map = map (\<lambda>(cat_id, cat_name). \<lparr>c_name = cat_name, c_id = cat_id\<rparr>) category_map"

definition extract_categories :: "node \<Rightarrow> exn + category_info list" where
  "extract_categories profile_soup =
     (case category_map_loop (find_all is_cat_link profile_soup) [] of
        Inl e \<Rightarrow> Inl e
      | Inr category_map \<Rightarrow> Inr (categories_data category_map))"

record cli_profile =
  journal :: string
  categories :: "category_info list"
  url :: string

record category_table =
  Category :: "string list"
  ids :: "string list"

definition journal_categories_cli_body :: "http \<Rightarrow> string \<Rightarrow> exn + cli_profile option" where
  "journal_categories_cli_body http journal_name =
     (case http search_url [(''q'', journal_name)] of
        None \<Rightarrow> Inl RequestException
      | Some resp \<Rightarrow>
          (case select_candidate_cli (content resp) of
             Inl e \<Rightarrow> Inl e
           | Inr None \<Rightarrow> Inr None
           | Inr (Some (journal_link, real_title)) \<Rightarrow>
               if journal_link = [] then Inr None
               else (case http (absolute_url journal_link) [] of
                       None \<Rightarrow> Inl RequestException
                     | Some profile_resp \<Rightarrow>
                         (case extract_categories (content profile_resp) of
                            Inl e \<Rightarrow> Inl e
                          | Inr cats \<Rightarrow>
                              Inr (Some \<lparr>journal = real_title, categories = cats,
                                          url = absolute_url journal_link\<rparr>)))))"

definition get_journal_categories_cli :: "http \<Rightarrow> string \<Rightarrow> exn + cli_profile option" where
  "get_journal_categories_cli http journal_name =
     catch_all (journal_categories_cli_body http journal_name) (\<lambda>e. Inr None)"

definition journal_categories_app_body :: "http \<Rightarrow> string \<Rightarrow> exn + (string \<times> category_table) option" where
  "journal_categories_app_body http journal_name =
     (case http search_url [(''q'', journal_name)] of
        None \<Rightarrow> Inl RequestException
      | Some resp \<Rightarrow>
          (case select_candidate_app journal_name (content resp) of
             Inl e \<Rightarrow> Inl e
           | Inr None \<Rightarrow> Inr None
           | Inr (Some (journal_link, real_title)) \<Rightarrow>
               if journal_link = [] then Inr None
               else (case http (absolute_url journal_link) [] of
                       None \<Rightarrow> Inl RequestException
                     | Some profile_resp \<Rightarrow>
                         (case extract_categories (content profile_resp) of
                            Inl e \<Rightarrow> Inl e
                          | Inr cats \<Rightarrow>
                              Inr (Some (real_title,
                                         \<lparr>Category = map c_name cats, ids = map c_id cats\<rparr>))))))"

definition get_journal_categories_app :: "http \<Rightarrow> string \<Rightarrow> exn + (string \<times> category_table) option" where
  "get_journal_categories_app http journal_name =
     catch_all (journal_categories_app_body http journal_name) (\<lambda>e. Inr None)"

section \<open>Ranking Locator\<close>

definition base_url :: string where
  "base_url = ''https://www.scimagojr.com/journalrank.php''"

text \<open>The category id is the text the f-string prints for it; \<^verbatim>\<open>if year\<close> is false for
  \<^verbatim>\<open>None\<close> and for the empty string.\<close>

definition listing_url :: "string \<Rightarrow> nat \<Rightarrow> string option \<Rightarrow> string" where
  "listing_url category_id page year =
     base_url @ ''?category='' @ category_id @ ''&page='' @ str_nat page @
       (case year of None \<Rightarrow> [] | Some y \<Rightarrow> if y = [] then [] else ''&year='' @ y)"

definition is_title_link :: "node \<Rightarrow> bool" where
  "is_title_link n = (is_tag ''a'' n \<and> attr ''title'' n = Some ''view journal details'')"

text \<open>The loop over \<^verbatim>\<open>['q1', 'q2', 'q3', 'q4']\<close> with its \<^verbatim>\<open>break\<close>;
  \<^verbatim>\<open>row.find(class_=q_class)\<close> looks for an element below the row that has the class.\<close>

fun quartile_loop :: "node \<Rightarrow> string list \<Rightarrow> string" where
  "quartile_loop row [] = ''N/A''"
| "quartile_loop row (q_class # q_classes) =
     (if find_first (has_class q_class) row \<noteq> None then upper q_class
      else quartile_loop row q_classes)"

definition quartile_of :: "node \<Rightarrow> string" where
  "quartile_of row = quartile_loop row [''q1'', ''q2'', ''q3'', ''q4'']"

record cli_ranking =
  Journal :: string
  Rank :: string
  Number_journals :: "int option"
  Quartile :: string
  Category_ID :: string
  Page_Found :: nat

fun scan_rows_cli :: "string \<Rightarrow> string \<Rightarrow> nat \<Rightarrow> int option \<Rightarrow> node list
    \<Rightarrow> exn + cli_ranking option" where
  "scan_rows_cli journal_name category_id page number_journals [] = Inr None"
| "scan_rows_cli journal_name category_id page number_journals (row # table_rows) =
     (case find_first is_title_link row of
        None \<Rightarrow> scan_rows_cli journal_name category_id page number_journals table_rows
      | Some title_tag \<Rightarrow>
          (let curr_journal_title = get_text_strip title_tag
           in if contains (lower journal_name) (lower curr_journal_title)
              then (case find_all (is_tag ''td'') row of
                      [] \<Rightarrow> Inl IndexError
                    | col0 # cols \<Rightarrow>
                        Inr (Some \<lparr>Journal = curr_journal_title,
                                    Rank = get_text_strip col0,
                                    Number_journals = number_journals,
                                    Quartile = quartile_of row,
                                    Category_ID = category_id,
                                    Page_Found = page\<rparr>))
              else scan_rows_cli journal_name category_id page number_journals table_rows))"

text \<open>What one pass through the body of \<^verbatim>\<open>while True\<close> decides: \<^verbatim>\<open>return\<close> a record,
  \<^verbatim>\<open>break\<close>, or go on to the page counter.\<close>

datatype 'r step = Return 'r | Break | Next

definition page_body_cli :: "http \<Rightarrow> string \<Rightarrow> string \<Rightarrow> string \<Rightarrow> nat
    \<Rightarrow> exn + cli_ranking step" where
  "page_body_cli http journal_name category_id page_url page =
     (case http page_url [] of
        None \<Rightarrow> Inl RequestException
      | Some resp \<Rightarrow>
          if status_code resp \<noteq> 200 then Inr Break
          else (let soup = content resp;
                    number_journals = get_total_journals soup;
                    table_rows = find_all (is_tag ''tr'') soup
                in if length table_rows \<le> 1 then Inr Break
                   else (case scan_rows_cli journal_name category_id page number_journals table_rows of
                           Inl e \<Rightarrow> Inl e
                         | Inr (Some r) \<Rightarrow> Inr (Return r)
                         | Inr None \<Rightarrow> Inr Next)))"

text \<open>The pagination loop. It returns what \<^verbatim>\<open>get_scimago_ranking\<close> returns and the log of
  the addresses requested, oldest first. The exception handler of the loop body is
  \<^verbatim>\<open>break\<close>; after \<^verbatim>\<open>page += 1\<close> the loop breaks once \<^verbatim>\<open>page > 100\<close>.\<close>

function ranking_loop_cli :: "http \<Rightarrow> string \<Rightarrow> string \<Rightarrow> string option \<Rightarrow> nat \<Rightarrow> string list
    \<Rightarrow> (exn + cli_ranking option) \<times> string list" where
  "ranking_loop_cli http journal_name category_id year page log =
     (case catch_all (page_body_cli http journal_name category_id
                        (listing_url category_id page year) page) (\<lambda>e. Inr Break) of
        Inl e \<Rightarrow> (Inl e, log @ [listing_url category_id page year])
      | Inr (Return r) \<Rightarrow> (Inr (Some r), log @ [listing_url category_id page year])
      | Inr Break \<Rightarrow> (Inr None, log @ [listing_url category_id page year])
      | Inr Next \<Rightarrow>
          if page + 1 > 100 then (Inr None, log @ [listing_url category_id page year])
          else ranking_loop_cli http journal_name category_id year (page + 1)
                 (log @ [listing_url category_id page year]))"
  by pat_completeness auto
termination
  by (relation "measure (\<lambda>(http, journal_name, category_id, year, page, log). 101 - page)") auto

declare ranking_loop_cli.simps [simp del]

definition get_scimago_ranking_cli :: "http \<Rightarrow> string \<Rightarrow> string \<Rightarrow> string option
    \<Rightarrow> exn + cli_ranking option" where
  "get_scimago_ranking_cli http journal_name category_id year =
     fst (ranking_loop_cli http journal_name category_id year 1 [])"

subsection \<open>The interactive form's copy\<close>

text \<open>\<^verbatim>\<open>s.replace(old, '')\<close> for a non-empty \<open>old\<close>.\<close>

fun remove_all :: "string \<Rightarrow> string \<Rightarrow> string" where
  "remove_all old [] = []"
| "remove_all old (c # cs) =
     (if starts_with old (c # cs) then remove_all old (drop (length old - 1) cs)
      else c # remove_all old cs)"

definition get_category_name :: "node \<Rightarrow> string" where
  "get_category_name soup =
     remove_all ''Journal Rankings on''
       (case find_first (is_tag ''title'') soup of Some t \<Rightarrow> get_text_strip t | None \<Rightarrow> [])"

text \<open>
  \<^verbatim>\<open>a / b\<close> on integers: \<^verbatim>\<open>ZeroDivisionError\<close> for \<open>b = 0\<close>, \<^verbatim>\<open>OverflowError\<close> when the
  quotient rounds beyond the largest double. The quotient itself is kept exact, as the
  pair of numerator and denominator: its rounding to a double and the two-decimal
  rendering of \<^verbatim>\<open>:.2f\<close> are not modelled.
\<close>

definition true_div :: "int \<Rightarrow> int \<Rightarrow> exn + (int \<times> int)" where
  "true_div a b =
     (if b = 0 then Inl ZeroDivisionError
      else if (2 ^ 1024 - 2 ^ 970) * \<bar>b\<bar> \<le> \<bar>a\<bar> then Inl OverflowError
      else Inr (a, b))"

datatype year_value = YearNone | YearText string | YearInt int

record app_ranking =
  App_Journal :: string
  App_Category_name :: "string list"
  App_Category_Rank :: string
  App_Percentile :: "int \<times> int"
  App_Quartile :: string
  App_Year :: year_value

text \<open>\<open>now_year\<close> is \<^verbatim>\<open>datetime.now().year\<close>. The number of journals is \<^verbatim>\<open>None\<close> or an
  integer; dividing by \<^verbatim>\<open>None\<close> is the \<^verbatim>\<open>TypeError\<close>.\<close>

definition percentile :: "string \<Rightarrow> int option \<Rightarrow> exn + (int \<times> int)" where
  "percentile rank number_journals =
     (case py_int rank of
        None \<Rightarrow> Inl ValueError
      | Some k \<Rightarrow>
          (case number_journals of
             None \<Rightarrow> Inl TypeError
           | Some n \<Rightarrow> true_div (100 * k) n))"

definition year_shown :: "int \<Rightarrow> string option \<Rightarrow> year_value" where
  "year_shown now_year year =
     (case year of
        None \<Rightarrow> YearNone
      | Some y \<Rightarrow> if y = [] then YearInt now_year else YearText y)"

definition str_total :: "int option \<Rightarrow> string" where
  "str_total number_journals = (case number_journals of None \<Rightarrow> ''None'' | Some n \<Rightarrow> str_int n)"

fun scan_rows_app :: "string \<Rightarrow> string option \<Rightarrow> int \<Rightarrow> int option \<Rightarrow> string \<Rightarrow> node list
    \<Rightarrow> exn + app_ranking option" where
  "scan_rows_app journal_name year now_year number_journals category_name [] = Inr None"
| "scan_rows_app journal_name year now_year number_journals category_name (row # table_rows) =
     (case find_first is_title_link row of
        None \<Rightarrow> scan_rows_app journal_name year now_year number_journals category_name table_rows
      | Some title_tag \<Rightarrow>
          (let curr_journal_title = get_text_strip title_tag
           in if contains (lower journal_name) (lower curr_journal_title)
              then (case find_all (is_tag ''td'') row of
                      [] \<Rightarrow> Inl IndexError
                    | col0 # cols \<Rightarrow>
                        (let rank = get_text_strip col0
                         in case percentile rank number_journals of
                              Inl e \<Rightarrow> Inl e
                            | Inr pct \<Rightarrow>
                                Inr (Some \<lparr>App_Journal = curr_journal_title,
                                            App_Category_name = [category_name],
                                            App_Category_Rank =
                                              ''#'' @ rank @ '' of '' @ str_total number_journals,
                                            App_Percentile = pct,
                                            App_Quartile = quartile_of row,
                                            App_Year = year_shown now_year year\<rparr>)))
              else scan_rows_app journal_name year now_year number_journals category_name
                     table_rows))"

definition page_body_app :: "http \<Rightarrow> int \<Rightarrow> string \<Rightarrow> string option \<Rightarrow> string
    \<Rightarrow> exn + app_ranking step" where
  "page_body_app http now_year journal_name year page_url =
     (case http page_url [] of
        None \<Rightarrow> Inl RequestException
      | Some resp \<Rightarrow>
          if status_code resp \<noteq> 200 then Inr Break
          else (let soup = content resp;
                    number_journals = get_total_journals soup;
                    table_rows = find_all (is_tag ''tr'') soup;
                    category_name = get_category_name soup
                in if length table_rows \<le> 1 then Inr Break
                   else (case scan_rows_app journal_name year now_year number_journals
                                category_name table_rows of
                           Inl e \<Rightarrow> Inl e
                         | Inr (Some r) \<Rightarrow> Inr (Return r)
                         | Inr None \<Rightarrow> Inr Next)))"

function ranking_loop_app :: "http \<Rightarrow> int \<Rightarrow> string \<Rightarrow> string \<Rightarrow> string option \<Rightarrow> nat
    \<Rightarrow> string list \<Rightarrow> (exn + app_ranking option) \<times> string list" where
  "ranking_loop_app http now_year journal_name category_id year page log =
     (case catch_all (page_body_app http now_year journal_name year
                        (listing_url category_id page year)) (\<lambda>e. Inr Break) of
        Inl e \<Rightarrow> (Inl e, log @ [listing_url category_id page year])
      | Inr (Return r) \<Rightarrow> (Inr (Some r), log @ [listing_url category_id page year])
      | Inr Break \<Rightarrow> (Inr None, log @ [listing_url category_id page year])
      | Inr Next \<Rightarrow>
          if page + 1 > 100 then (Inr None, log @ [listing_url category_id page year])
          else ranking_loop_app http now_year journal_name category_id year (page + 1)
                 (log @ [listing_url category_id page year]))"
  by pat_completeness auto
termination
  by (relation "measure (\<lambda>(http, now_year, journal_name, category_id, year, page, log). 101 - page)")
     auto

declare ranking_loop_app.simps [simp del]

definition get_scimago_ranking_app :: "http \<Rightarrow> int \<Rightarrow> string \<Rightarrow> string \<Rightarrow> string option
    \<Rightarrow> exn + app_ranking option" where
  "get_scimago_ranking_app http now_year journal_name category_id year =
     fst (ranking_loop_app http now_year journal_name category_id year 1 [])"

subsection \<open>The report of the command-line program\<close>

text \<open>The percentile line of the command-line program's \<^verbatim>\<open>__main__\<close> block, computed from
  the record that \<^verbatim>\<open>get_scimago_ranking\<close> returned:
  \<^verbatim>\<open>100*int(result['Rank'])/result['Number journals']\<close>.\<close>

definition main_percentile :: "cli_ranking \<Rightarrow> exn + (int \<times> int)" where
  "main_percentile result = percentile (Rank result) (Number_journals result)"

section \<open>Vocabulary of the properties\<close>

text \<open>The display title of a table row (the text of its "view journal details" link),
  whether the row matches the query, and the text of its first cell.\<close>

definition row_title :: "node \<Rightarrow> string option" where
  "row_title row = map_option get_text_strip (find_first is_title_link row)"

definition row_matches :: "string \<Rightarrow> node \<Rightarrow> bool" where
  "row_matches journal_name row =
     (case row_title row of None \<Rightarrow> False | Some t \<Rightarrow> contains (lower journal_name) (lower t))"

definition first_cell :: "node \<Rightarrow> string option" where
  "first_cell row =
     (case find_all (is_tag ''td'') row of [] \<Rightarrow> None | col0 # cols \<Rightarrow> Some (get_text_strip col0))"

text \<open>The table rows of a listing page that was fetched with status 200.\<close>

definition listing_rows :: "http \<Rightarrow> string \<Rightarrow> node list option" where
  "listing_rows http page_url =
     (case http page_url [] of
        None \<Rightarrow> None
      | Some resp \<Rightarrow>
          if status_code resp = 200 then Some (find_all (is_tag ''tr'') (content resp)) else None)"

text \<open>The total and the category name read on a listing page, and the pages that send the
  loop on to the next page: fetched with status 200, more than one table row, no row
  matching.\<close>

definition listing_total :: "http \<Rightarrow> string \<Rightarrow> int option" where
  "listing_total http page_url =
     (case http page_url [] of None \<Rightarrow> None | Some resp \<Rightarrow> get_total_journals (content resp))"

definition listing_category :: "http \<Rightarrow> string \<Rightarrow> string" where
  "listing_category http page_url =
     (case http page_url [] of None \<Rightarrow> [] | Some resp \<Rightarrow> get_category_name (content resp))"

definition page_without_match :: "http \<Rightarrow> string \<Rightarrow> string \<Rightarrow> bool" where
  "page_without_match http journal_name page_url =
     (case listing_rows http page_url of
        None \<Rightarrow> False
      | Some rows \<Rightarrow> 1 < length rows \<and> list_all (\<lambda>row. \<not> row_matches journal_name row) rows)"


text \<open>The category id and the display name that a category link contributes.\<close>

definition link_id :: "node \<Rightarrow> string" where
  "link_id l = (case attr ''href'' l of None \<Rightarrow> ''Unknown'' | Some href \<Rightarrow> cat_id_of_href href)"

definition link_pair :: "node \<Rightarrow> string \<times> string" where
  "link_pair l = (link_id l, get_text_strip l)"

text \<open>The candidate links of a search page (the links of the first results container), the
  display title of a candidate, and whether it equals the query case-insensitively.\<close>

definition candidates :: "node \<Rightarrow> node list" where
  "candidates soup =
     (case find_all is_search_results soup of
        [] \<Rightarrow> []
      | first_div # other_divs \<Rightarrow> find_all (is_tag ''a'') first_div)"

definition candidate_title :: "node \<Rightarrow> string option" where
  "candidate_title a = map_option get_text_strip (find_first is_jrnlname a)"

definition title_equals :: "string \<Rightarrow> node \<Rightarrow> bool" where
  "title_equals journal_name a =
     (case candidate_title a of None \<Rightarrow> False | Some t \<Rightarrow> lower t = lower journal_name)"

text \<open>What a caller reads off the result of \<open>get_journal_categories\<close> in either program:
  the journal title, the category names and the category ids.\<close>

definition summary_cli :: "exn + cli_profile option \<Rightarrow> (string \<times> string list \<times> string list) option" where
  "summary_cli res =
     (case res of
        Inr (Some r) \<Rightarrow> Some (journal r, map c_name (categories r), map c_id (categories r))
      | _ \<Rightarrow> None)"

definition summary_app :: "exn + (string \<times> category_table) option
    \<Rightarrow> (string \<times> string list \<times> string list) option" where
  "summary_app res =
     (case res of
        Inr (Some (real_title, table)) \<Rightarrow> Some (real_title, Category table, ids table)
      | _ \<Rightarrow> None)"

section \<open>Example documents\<close>

text \<open>The documents and networks that the witnesses and counterexamples below are
  evaluated on. \<open>document\<close> is the root object that the parser returns.\<close>

definition document :: "node list \<Rightarrow> node" where
  "document nodes = Element ''[document]'' [] [] nodes"

definition link :: "string \<Rightarrow> string \<Rightarrow> node" where
  "link href label = Element ''a'' [(''href'', href)] [] [Text label]"

definition page_1500 :: node where
  "page_1500 = document
     [link ''journalrank.php?category=1702&page=40&total_size=1500'' ''40'',
      link ''journalrank.php?category=1702&page=2&total_size=1500'' ''Next'']"

definition page_zero_total :: node where
  "page_zero_total = document
     [link ''journalrank.php?category=1702&total_size=0'' ''first'',
      link ''journalrank.php?category=1702&page=40'' ''40'']"

definition journal_row :: "string \<Rightarrow> string \<Rightarrow> string list \<Rightarrow> node" where
  "journal_row rank title q_classes =
     Element ''tr'' [] []
       [Element ''td'' [] [] [Text rank],
        Element ''td'' [] []
          [Element ''a'' [(''href'', ''journalsearch.php?tip=sid''), (''title'', ''view journal details'')] []
             [Text title]],
        Element ''td'' [] [] (map (\<lambda>q. Element ''span'' [] [q] [Text (upper q)]) q_classes)]"

definition header_row :: node where
  "header_row = Element ''tr'' [] [] [Element ''th'' [] [] [Text ''Title'']]"

definition listing_page :: "string \<Rightarrow> node list \<Rightarrow> node list \<Rightarrow> node" where
  "listing_page title rows links =
     document
       [Element ''html'' [] []
          [Element ''head'' [] [] [Element ''title'' [] [] [Text title]],
           Element ''body'' [] []
             [Element ''table'' [] [] rows, Element ''div'' [] [''pagination''] links]]]"

definition nature_page :: node where
  "nature_page = listing_page ''Journal Rankings on Multidisciplinary''
     [header_row, journal_row ''1'' ''Nature'' [''q1''], journal_row ''2'' ''Science'' [''q1'']]
     [link ''journalrank.php?category=1000&page=2&total_size=1200'' ''Next'']"

definition http_nature :: http where
  "http_nature u params =
     (if u = ''https://www.scimagojr.com/journalrank.php?category=1000&page=1''
      then Some \<lparr>status_code = 200, content = nature_page\<rparr> else None)"

definition data_page :: node where
  "data_page = listing_page ''Journal Rankings on Artificial Intelligence''
     [header_row, journal_row ''1'' ''Artificial Intelligence'' [''q1''],
      journal_row ''2'' ''Machine Learning'' [''q2'']]
     [link ''journalrank.php?category=1702&page=4&total_size=150'' ''4'']"

definition empty_page :: node where
  "empty_page = listing_page ''Journal Rankings on Artificial Intelligence'' [header_row] []"

definition http_four :: http where
  "http_four u params =
     (if u \<in> set (map (\<lambda>q. listing_url ''1702'' q None) [1, 2, 3])
      then Some \<lparr>status_code = 200, content = data_page\<rparr>
      else if u = listing_url ''1702'' 4 None
      then Some \<lparr>status_code = 200, content = empty_page\<rparr>
      else None)"



definition candidate :: "string \<Rightarrow> string \<Rightarrow> node" where
  "candidate href title =
     Element ''a'' [(''href'', href)] [] [Element ''span'' [] [''jrnlname''] [Text title]]"

definition search_page :: node where
  "search_page = document
     [Element ''body'' [] []
        [Element ''div'' [] [''search_results'']
           [candidate ''journalsearch.php?q=1'' ''Nature Physics'',
            candidate ''journalsearch.php?q=2'' ''Nature'']]]"

definition physics_profile :: node where
  "physics_profile = document
     [link ''journalrank.php?category=3100'' ''Physics and Astronomy'']"

definition nature_profile :: node where
  "nature_profile = document
     [link ''journalrank.php?category=1000'' ''Multidisciplinary'']"

definition http_search :: http where
  "http_search u params =
     (if u = search_url then Some \<lparr>status_code = 200, content = search_page\<rparr>
      else if u = ''https://www.scimagojr.com/journalsearch.php?q=1''
      then Some \<lparr>status_code = 200, content = physics_profile\<rparr>
      else if u = ''https://www.scimagojr.com/journalsearch.php?q=2''
      then Some \<lparr>status_code = 200, content = nature_profile\<rparr>
      else None)"



definition small_category_page :: node where
  "small_category_page = listing_page ''Journal Rankings on Small Category''
     [header_row, journal_row ''1'' ''Nature'' [''q1'']] []"

definition http_small :: http where
  "http_small u params =
     (if u = ''https://www.scimagojr.com/journalrank.php?category=3300&page=1''
      then Some \<lparr>status_code = 200, content = small_category_page\<rparr> else None)"

section \<open>Properties of the Total-Count Resolver\<close>

lemma param_values_Nil: "param_values key [] = []"
  by (simp add: param_values_def List.map_filter_simps)

lemma param_values_Cons:
  "param_values key (h # hs) =
     (case re_search_digits key h of
        None \<Rightarrow> param_values key hs
      | Some d \<Rightarrow> int_of_digits 0 d # param_values key hs)"
  by (simp add: param_values_def List.map_filter_simps split: option.splits)

lemma max_param_fold: "max_param key hrefs m = fold max (param_values key hrefs) m"
  by (induction hrefs arbitrary: m)
     (auto simp: param_values_Nil param_values_Cons Let_def max_def split: option.splits)

lemma max_param_Max: "max_param key hrefs m = Max (set (m # param_values key hrefs))"
  by (simp only: max_param_fold Max.set_eq_fold)

lemma max_param_pos:
  "(0 < max_param key hrefs 0) = (\<exists>v\<in>set (param_values key hrefs). 0 < v)"
  by (auto simp: max_param_Max Max_gr_iff)

lemma max_param_val:
  assumes "\<exists>v\<in>set (param_values key hrefs). 0 < v"
  shows "max_param key hrefs 0 = Max (set (param_values key hrefs))"
proof -
  from assms obtain v where v: "v \<in> set (param_values key hrefs)" "0 < v" by blast
  then have ne: "set (param_values key hrefs) \<noteq> {}" by auto
  have "v \<le> Max (set (param_values key hrefs))" using v by simp
  then have "0 < Max (set (param_values key hrefs))" using v by linarith
  then show ?thesis using ne by (simp add: max_param_Max)
qed

text \<open>
  C3 (as amended). The resolver returns the largest \<open>total_size=\<close> value among the
  links (the first occurrence in each link target) when some such value is positive;
  otherwise 50 times the largest \<open>page=\<close> value when some such value is positive;
  otherwise \<open>None\<close>. A \<open>total_size=0\<close> counts as no value.
\<close>

theorem get_total_journals_resolved:
  "get_total_journals soup =
     (let ts = param_values ''total_size='' (all_links soup);
          ps = param_values ''page='' (all_links soup)
      in if \<exists>v\<in>set ts. 0 < v then Some (Max (set ts))
         else if \<exists>v\<in>set ps. 0 < v then Some (50 * Max (set ps))
         else None)"
  by (simp add: get_total_journals_def Let_def max_param_pos max_param_val)

text \<open>The page of the specification's example: links with \<open>total_size=1500\<close> and
  \<open>page=40\<close> give 1500.\<close>

theorem get_total_journals_resolved_witness:
  "param_values ''total_size='' (all_links page_1500) = [1500, 1500]
   \<and> param_values ''page='' (all_links page_1500) = [40, 2]
   \<and> get_total_journals page_1500 = Some 1500"
proof -
  have ts: "param_values ''total_size='' (all_links page_1500) = [1500, 1500]"
    by code_simp
  have ps: "param_values ''page='' (all_links page_1500) = [40, 2]"
    by code_simp
  have "get_total_journals page_1500 = Some 1500"
    using get_total_journals_resolved [of page_1500] by (simp add: ts ps Let_def)
  with ts ps show ?thesis by simp
qed

text \<open>C3 as stated fails: a link with \<open>total_size=0\<close> exists, its maximum is 0, and the
  resolver returns the page estimate 50 * 40.\<close>

theorem get_total_journals_zero_counterexample:
  "param_values ''total_size='' (all_links page_zero_total) = [0]
   \<and> get_total_journals page_zero_total = Some 2000
   \<and> get_total_journals page_zero_total
       \<noteq> Some (Max (set (param_values ''total_size='' (all_links page_zero_total))))"
proof -
  have ts: "param_values ''total_size='' (all_links page_zero_total) = [0]"
    by code_simp
  have r: "get_total_journals page_zero_total = Some 2000"
    by code_simp
  show ?thesis by (simp add: ts r)
qed

section \<open>Scanning the rows of a page\<close>


lemma scan_rows_cli_no_match:
  "(scan_rows_cli n c p nj rows = Inr None) = (\<forall>row\<in>set rows. \<not> row_matches n row)"
  by (induction rows)
     (auto simp: row_matches_def row_title_def Let_def split: option.splits list.splits if_splits)

lemma scan_rows_app_no_match:
  "(scan_rows_app n y ny nj cn rows = Inr None) = (\<forall>row\<in>set rows. \<not> row_matches n row)"
  by (induction rows)
     (auto simp: row_matches_def row_title_def Let_def split: option.splits list.splits if_splits sum.splits)

lemma scan_rows_cli_hit:
  assumes "\<forall>x\<in>set pre. \<not> row_matches n x" and "row_title row = Some t"
    and "contains (lower n) (lower t)"
  shows "scan_rows_cli n c p nj (pre @ row # post) =
     (case first_cell row of
        None \<Rightarrow> Inl IndexError
      | Some rank \<Rightarrow> Inr (Some \<lparr>Journal = t, Rank = rank, Number_journals = nj,
           Quartile = quartile_of row, Category_ID = c, Page_Found = p\<rparr>))"
  using assms
  by (induction pre)
     (auto simp: row_matches_def row_title_def first_cell_def Let_def split: option.splits list.splits if_splits)

lemma scan_rows_app_hit:
  assumes "\<forall>x\<in>set pre. \<not> row_matches n x" and "row_title row = Some t"
    and "contains (lower n) (lower t)"
  shows "scan_rows_app n y ny nj cn (pre @ row # post) =
     (case first_cell row of
        None \<Rightarrow> Inl IndexError
      | Some rank \<Rightarrow>
          (case percentile rank nj of
             Inl e \<Rightarrow> Inl e
           | Inr pct \<Rightarrow> Inr (Some \<lparr>App_Journal = t, App_Category_name = [cn],
               App_Category_Rank = ''#'' @ rank @ '' of '' @ str_total nj,
               App_Percentile = pct, App_Quartile = quartile_of row,
               App_Year = year_shown ny y\<rparr>)))"
  using assms
  by (induction pre)
     (auto simp: row_matches_def row_title_def first_cell_def Let_def split: option.splits list.splits if_splits sum.splits)

lemma first_match_split:
  assumes "\<not> (\<forall>row\<in>set rows. \<not> row_matches n row)"
  shows "\<exists>pre row post. rows = pre @ row # post \<and> (\<forall>x\<in>set pre. \<not> row_matches n x) \<and> row_matches n row"
proof -
  from assms have "\<exists>x\<in>set rows. row_matches n x" by blast
  from split_list_first_prop [OF this] show ?thesis by blast
qed

lemma row_matches_title:
  "row_matches n row = (\<exists>t. row_title row = Some t \<and> contains (lower n) (lower t))"
  by (auto simp: row_matches_def split: option.splits)


lemma page_body_cli_rows:
  "listing_rows http u = Some rows \<Longrightarrow>
   page_body_cli http n c u p =
     (if length rows \<le> 1 then Inr Break
      else (case scan_rows_cli n c p (listing_total http u) rows of
              Inl e \<Rightarrow> Inl e
            | Inr (Some r) \<Rightarrow> Inr (Return r)
            | Inr None \<Rightarrow> Inr Next))"
  by (auto simp: listing_rows_def listing_total_def page_body_cli_def Let_def
           split: option.splits if_splits)

lemma page_body_app_rows:
  "listing_rows http u = Some rows \<Longrightarrow>
   page_body_app http ny n y u =
     (if length rows \<le> 1 then Inr Break
      else (case scan_rows_app n y ny (listing_total http u) (listing_category http u) rows of
              Inl e \<Rightarrow> Inl e
            | Inr (Some r) \<Rightarrow> Inr (Return r)
            | Inr None \<Rightarrow> Inr Next))"
  by (auto simp: listing_rows_def listing_total_def listing_category_def page_body_app_def Let_def
           split: option.splits if_splits)

lemma page_body_cli_no_rows:
  "listing_rows http u = None \<Longrightarrow>
   page_body_cli http n c u p = Inl RequestException \<or> page_body_cli http n c u p = Inr Break"
  by (auto simp: listing_rows_def page_body_cli_def split: option.splits if_splits)

lemma page_body_app_no_rows:
  "listing_rows http u = None \<Longrightarrow>
   page_body_app http ny n y u = Inl RequestException \<or> page_body_app http ny n y u = Inr Break"
  by (auto simp: listing_rows_def page_body_app_def split: option.splits if_splits)

lemma page_body_cli_Next:
  "(page_body_cli http n c u p = Inr Next) = page_without_match http n u"
proof (cases "listing_rows http u")
  case None
  then show ?thesis using page_body_cli_no_rows [OF None, of n c p]
    by (auto simp: page_without_match_def)
next
  case (Some rows)
  have "(scan_rows_cli n c p (listing_total http u) rows = Inr None)
      = (\<forall>row\<in>set rows. \<not> row_matches n row)"
    by (rule scan_rows_cli_no_match)
  then show ?thesis
    by (auto simp: page_body_cli_rows [OF Some] page_without_match_def Some list_all_iff
             split: sum.splits option.splits)
qed

lemma page_body_app_Next:
  "(page_body_app http ny n y u = Inr Next) = page_without_match http n u"
proof (cases "listing_rows http u")
  case None
  then show ?thesis using page_body_app_no_rows [OF None, of ny n y]
    by (auto simp: page_without_match_def)
next
  case (Some rows)
  have "(scan_rows_app n y ny (listing_total http u) (listing_category http u) rows = Inr None)
      = (\<forall>row\<in>set rows. \<not> row_matches n row)"
    by (rule scan_rows_app_no_match)
  then show ?thesis
    by (auto simp: page_body_app_rows [OF Some] page_without_match_def Some list_all_iff
             split: sum.splits option.splits)
qed

text \<open>A page that returns a record: its rows split at the first matching row.\<close>

lemma page_body_cli_Return:
  assumes "page_body_cli http n c u p = Inr (Return r)"
  shows "\<exists>rows pre row post. listing_rows http u = Some rows \<and> 1 < length rows
      \<and> rows = pre @ row # post \<and> (\<forall>x\<in>set pre. \<not> row_matches n x)
      \<and> row_title row = Some (Journal r) \<and> contains (lower n) (lower (Journal r))
      \<and> first_cell row = Some (Rank r)
      \<and> r = \<lparr>Journal = Journal r, Rank = Rank r, Number_journals = listing_total http u,
             Quartile = quartile_of row, Category_ID = c, Page_Found = p\<rparr>"
proof (cases "listing_rows http u")
  case None
  then show ?thesis using page_body_cli_no_rows [OF None, of n c p] assms by auto
next
  case (Some rows)
  from assms have len: "1 < length rows"
    and sc: "scan_rows_cli n c p (listing_total http u) rows = Inr (Some r)"
    by (auto simp: page_body_cli_rows [OF Some] split: if_splits sum.splits option.splits)
  from sc have "\<not> (\<forall>row\<in>set rows. \<not> row_matches n row)"
    using scan_rows_cli_no_match [of n c p "listing_total http u" rows] by simp
  from first_match_split [OF this] obtain pre row post where
    sp: "rows = pre @ row # post" "\<forall>x\<in>set pre. \<not> row_matches n x" "row_matches n row"
    by blast
  from sp(3) obtain t where t: "row_title row = Some t" "contains (lower n) (lower t)"
    by (auto simp: row_matches_title)
  from sc have "(case first_cell row of
        None \<Rightarrow> Inl IndexError
      | Some rank \<Rightarrow> Inr (Some \<lparr>Journal = t, Rank = rank, Number_journals = listing_total http u,
           Quartile = quartile_of row, Category_ID = c, Page_Found = p\<rparr>)) = Inr (Some r)"
    unfolding sp(1) by (simp add: scan_rows_cli_hit [OF sp(2) t])
  then obtain rank where rk: "first_cell row = Some rank"
    "r = \<lparr>Journal = t, Rank = rank, Number_journals = listing_total http u,
           Quartile = quartile_of row, Category_ID = c, Page_Found = p\<rparr>"
    by (auto split: option.splits)
  show ?thesis using Some len sp(1,2) t rk by auto
qed

lemma page_body_app_Return:
  assumes "page_body_app http ny n y u = Inr (Return r)"
  shows "\<exists>rows pre row post rank. listing_rows http u = Some rows \<and> 1 < length rows
      \<and> rows = pre @ row # post \<and> (\<forall>x\<in>set pre. \<not> row_matches n x)
      \<and> row_title row = Some (App_Journal r) \<and> contains (lower n) (lower (App_Journal r))
      \<and> first_cell row = Some rank
      \<and> percentile rank (listing_total http u) = Inr (App_Percentile r)
      \<and> r = \<lparr>App_Journal = App_Journal r, App_Category_name = [listing_category http u],
             App_Category_Rank = ''#'' @ rank @ '' of '' @ str_total (listing_total http u),
             App_Percentile = App_Percentile r, App_Quartile = quartile_of row,
             App_Year = year_shown ny y\<rparr>"
proof (cases "listing_rows http u")
  case None
  then show ?thesis using page_body_app_no_rows [OF None, of ny n y] assms by auto
next
  case (Some rows)
  let ?nj = "listing_total http u" and ?cn = "listing_category http u"
  from assms have len: "1 < length rows"
    and sc: "scan_rows_app n y ny ?nj ?cn rows = Inr (Some r)"
    by (auto simp: page_body_app_rows [OF Some] split: if_splits sum.splits option.splits)
  from sc have "\<not> (\<forall>row\<in>set rows. \<not> row_matches n row)"
    using scan_rows_app_no_match [of n y ny ?nj ?cn rows] by simp
  from first_match_split [OF this] obtain pre row post where
    sp: "rows = pre @ row # post" "\<forall>x\<in>set pre. \<not> row_matches n x" "row_matches n row"
    by blast
  from sp(3) obtain t where t: "row_title row = Some t" "contains (lower n) (lower t)"
    by (auto simp: row_matches_title)
  from sc have "(case first_cell row of
        None \<Rightarrow> Inl IndexError
      | Some rank \<Rightarrow>
          (case percentile rank ?nj of
             Inl e \<Rightarrow> Inl e
           | Inr pct \<Rightarrow> Inr (Some \<lparr>App_Journal = t, App_Category_name = [?cn],
               App_Category_Rank = ''#'' @ rank @ '' of '' @ str_total ?nj,
               App_Percentile = pct, App_Quartile = quartile_of row,
               App_Year = year_shown ny y\<rparr>))) = Inr (Some r)"
    unfolding sp(1) by (simp add: scan_rows_app_hit [OF sp(2) t])
  then obtain rank pct where rk: "first_cell row = Some rank" "percentile rank ?nj = Inr pct"
    "r = \<lparr>App_Journal = t, App_Category_name = [?cn],
               App_Category_Rank = ''#'' @ rank @ '' of '' @ str_total ?nj,
               App_Percentile = pct, App_Quartile = quartile_of row,
               App_Year = year_shown ny y\<rparr>"
    by (auto split: option.splits sum.splits)
  show ?thesis using Some len sp(1,2) t rk by auto
qed

section \<open>The pagination loop\<close>

lemma ranking_loop_cli_char:
  "\<exists>l. p \<le> l
     \<and> snd (ranking_loop_cli http n c y p log) = log @ map (\<lambda>q. listing_url c q y) [p..<Suc l]
     \<and> (\<forall>q. p \<le> q \<and> q < l \<longrightarrow> page_body_cli http n c (listing_url c q y) q = Inr Next)
     \<and> fst (ranking_loop_cli http n c y p log) =
         (case page_body_cli http n c (listing_url c l y) l of
            Inr (Return r) \<Rightarrow> Inr (Some r) | _ \<Rightarrow> Inr None)
     \<and> (page_body_cli http n c (listing_url c l y) l = Inr Next \<longrightarrow> 100 \<le> l)
     \<and> (p \<le> 100 \<longrightarrow> l \<le> 100)"
proof (induction http n c y p log rule: ranking_loop_cli.induct)
  case (1 http n c y p log)
  let ?b = "\<lambda>q. page_body_cli http n c (listing_url c q y) q"
  show ?case
  proof (cases "?b p = Inr Next \<and> \<not> (p + 1 > 100)")
    case True
    then have ca: "catch_all (?b p) (\<lambda>e. Inr Break) = Inr Next"
      by (simp add: catch_all_def)
    have step: "ranking_loop_cli http n c y p log =
        ranking_loop_cli http n c y (p + 1) (log @ [listing_url c p y])"
      using True by (subst ranking_loop_cli.simps) (simp add: catch_all_def)
    from "1.IH" [OF ca refl] True obtain l where l: "p + 1 \<le> l"
      "snd (ranking_loop_cli http n c y (p + 1) (log @ [listing_url c p y])) =
         (log @ [listing_url c p y]) @ map (\<lambda>q. listing_url c q y) [p + 1..<Suc l]"
      "\<forall>q. p + 1 \<le> q \<and> q < l \<longrightarrow> ?b q = Inr Next"
      "fst (ranking_loop_cli http n c y (p + 1) (log @ [listing_url c p y])) =
         (case ?b l of Inr (Return r) \<Rightarrow> Inr (Some r) | _ \<Rightarrow> Inr None)"
      "?b l = Inr Next \<longrightarrow> 100 \<le> l" "p + 1 \<le> 100 \<longrightarrow> l \<le> 100"
      by blast
    have upt: "[p..<Suc l] = p # [p + 1..<Suc l]"
      using l(1) by (simp add: upt_conv_Cons del: upt_Suc)
    have nexts: "\<forall>q. p \<le> q \<and> q < l \<longrightarrow> ?b q = Inr Next"
    proof (intro allI impI)
      fix q assume "p \<le> q \<and> q < l"
      then show "?b q = Inr Next" using l(3) True by (cases "q = p") auto
    qed
    have "p \<le> l" using l(1) by simp
    moreover have "snd (ranking_loop_cli http n c y p log) = log @ map (\<lambda>q. listing_url c q y) [p..<Suc l]"
      using l(2) by (simp add: step upt del: upt_Suc)
    moreover have "fst (ranking_loop_cli http n c y p log) =
         (case ?b l of Inr (Return r) \<Rightarrow> Inr (Some r) | _ \<Rightarrow> Inr None)"
      using l(4) by (simp add: step)
    moreover have "p \<le> 100 \<longrightarrow> l \<le> 100" using l(6) True by simp
    ultimately show ?thesis using nexts l(5) by blast
  next
    case False
    have "snd (ranking_loop_cli http n c y p log) = log @ map (\<lambda>q. listing_url c q y) [p..<Suc p]"
      using False by (subst ranking_loop_cli.simps) (simp add: catch_all_def split: sum.splits step.splits)
    moreover have "fst (ranking_loop_cli http n c y p log) =
         (case ?b p of Inr (Return r) \<Rightarrow> Inr (Some r) | _ \<Rightarrow> Inr None)"
      using False by (subst ranking_loop_cli.simps) (simp add: catch_all_def split: sum.splits step.splits)
    moreover have "?b p = Inr Next \<longrightarrow> 100 \<le> p" using False by auto
    ultimately show ?thesis by fastforce
  qed
qed

lemma ranking_loop_app_char:
  "\<exists>l. p \<le> l
     \<and> snd (ranking_loop_app http ny n c y p log) = log @ map (\<lambda>q. listing_url c q y) [p..<Suc l]
     \<and> (\<forall>q. p \<le> q \<and> q < l \<longrightarrow> page_body_app http ny n y (listing_url c q y) = Inr Next)
     \<and> fst (ranking_loop_app http ny n c y p log) =
         (case page_body_app http ny n y (listing_url c l y) of
            Inr (Return r) \<Rightarrow> Inr (Some r) | _ \<Rightarrow> Inr None)
     \<and> (page_body_app http ny n y (listing_url c l y) = Inr Next \<longrightarrow> 100 \<le> l)
     \<and> (p \<le> 100 \<longrightarrow> l \<le> 100)"
proof (induction http ny n c y p log rule: ranking_loop_app.induct)
  case (1 http ny n c y p log)
  let ?b = "\<lambda>q. page_body_app http ny n y (listing_url c q y)"
  show ?case
  proof (cases "?b p = Inr Next \<and> \<not> (p + 1 > 100)")
    case True
    then have ca: "catch_all (?b p) (\<lambda>e. Inr Break) = Inr Next"
      by (simp add: catch_all_def)
    have step: "ranking_loop_app http ny n c y p log =
        ranking_loop_app http ny n c y (p + 1) (log @ [listing_url c p y])"
      using True by (subst ranking_loop_app.simps) (simp add: catch_all_def)
    from "1.IH" [OF ca refl] True obtain l where l: "p + 1 \<le> l"
      "snd (ranking_loop_app http ny n c y (p + 1) (log @ [listing_url c p y])) =
         (log @ [listing_url c p y]) @ map (\<lambda>q. listing_url c q y) [p + 1..<Suc l]"
      "\<forall>q. p + 1 \<le> q \<and> q < l \<longrightarrow> ?b q = Inr Next"
      "fst (ranking_loop_app http ny n c y (p + 1) (log @ [listing_url c p y])) =
         (case ?b l of Inr (Return r) \<Rightarrow> Inr (Some r) | _ \<Rightarrow> Inr None)"
      "?b l = Inr Next \<longrightarrow> 100 \<le> l" "p + 1 \<le> 100 \<longrightarrow> l \<le> 100"
      by blast
    have upt: "[p..<Suc l] = p # [p + 1..<Suc l]"
      using l(1) by (simp add: upt_conv_Cons del: upt_Suc)
    have nexts: "\<forall>q. p \<le> q \<and> q < l \<longrightarrow> ?b q = Inr Next"
    proof (intro allI impI)
      fix q assume "p \<le> q \<and> q < l"
      then show "?b q = Inr Next" using l(3) True by (cases "q = p") auto
    qed
    have "p \<le> l" using l(1) by simp
    moreover have "snd (ranking_loop_app http ny n c y p log) = log @ map (\<lambda>q. listing_url c q y) [p..<Suc l]"
      using l(2) by (simp add: step upt del: upt_Suc)
    moreover have "fst (ranking_loop_app http ny n c y p log) =
         (case ?b l of Inr (Return r) \<Rightarrow> Inr (Some r) | _ \<Rightarrow> Inr None)"
      using l(4) by (simp add: step)
    moreover have "p \<le> 100 \<longrightarrow> l \<le> 100" using l(6) True by simp
    ultimately show ?thesis using nexts l(5) by blast
  next
    case False
    have "snd (ranking_loop_app http ny n c y p log) = log @ map (\<lambda>q. listing_url c q y) [p..<Suc p]"
      using False by (subst ranking_loop_app.simps) (simp add: catch_all_def split: sum.splits step.splits)
    moreover have "fst (ranking_loop_app http ny n c y p log) =
         (case ?b p of Inr (Return r) \<Rightarrow> Inr (Some r) | _ \<Rightarrow> Inr None)"
      using False by (subst ranking_loop_app.simps) (simp add: catch_all_def split: sum.splits step.splits)
    moreover have "?b p = Inr Next \<longrightarrow> 100 \<le> p" using False by auto
    ultimately show ?thesis by fastforce
  qed
qed

lemma ranking_loop_cli_stop:
  "\<exists>l. p \<le> l
     \<and> snd (ranking_loop_cli http n c y p log) = log @ map (\<lambda>q. listing_url c q y) [p..<Suc l]
     \<and> (\<forall>q. p \<le> q \<and> q < l \<longrightarrow> page_without_match http n (listing_url c q y))
     \<and> fst (ranking_loop_cli http n c y p log) =
         (case page_body_cli http n c (listing_url c l y) l of
            Inr (Return r) \<Rightarrow> Inr (Some r) | _ \<Rightarrow> Inr None)
     \<and> (page_without_match http n (listing_url c l y) \<longrightarrow> 100 \<le> l)
     \<and> (p \<le> 100 \<longrightarrow> l \<le> 100)"
  using ranking_loop_cli_char [of p http n c y log] by (simp only: page_body_cli_Next)

lemma ranking_loop_app_stop:
  "\<exists>l. p \<le> l
     \<and> snd (ranking_loop_app http ny n c y p log) = log @ map (\<lambda>q. listing_url c q y) [p..<Suc l]
     \<and> (\<forall>q. p \<le> q \<and> q < l \<longrightarrow> page_without_match http n (listing_url c q y))
     \<and> fst (ranking_loop_app http ny n c y p log) =
         (case page_body_app http ny n y (listing_url c l y) of
            Inr (Return r) \<Rightarrow> Inr (Some r) | _ \<Rightarrow> Inr None)
     \<and> (page_without_match http n (listing_url c l y) \<longrightarrow> 100 \<le> l)
     \<and> (p \<le> 100 \<longrightarrow> l \<le> 100)"
  using ranking_loop_app_char [of p http ny n c y log] by (simp only: page_body_app_Next)

text \<open>The loop stops at page \<open>p\<close> when every page before it sends the loop on and \<open>p\<close>
  does not, or is page 100.\<close>

lemma ranking_loop_cli_stops_at:
  assumes "p0 \<le> p" and "p \<le> 100"
    and "\<forall>q. p0 \<le> q \<and> q < p \<longrightarrow> page_without_match http n (listing_url c q y)"
    and "\<not> page_without_match http n (listing_url c p y) \<or> p = 100"
  shows "ranking_loop_cli http n c y p0 log =
     ((case page_body_cli http n c (listing_url c p y) p of
         Inr (Return r) \<Rightarrow> Inr (Some r) | _ \<Rightarrow> Inr None),
      log @ map (\<lambda>q. listing_url c q y) [p0..<Suc p])"
proof -
  from ranking_loop_cli_stop [of p0 http n c y log] obtain l where l: "p0 \<le> l"
    "snd (ranking_loop_cli http n c y p0 log) = log @ map (\<lambda>q. listing_url c q y) [p0..<Suc l]"
    "\<forall>q. p0 \<le> q \<and> q < l \<longrightarrow> page_without_match http n (listing_url c q y)"
    "fst (ranking_loop_cli http n c y p0 log) =
         (case page_body_cli http n c (listing_url c l y) l of
            Inr (Return r) \<Rightarrow> Inr (Some r) | _ \<Rightarrow> Inr None)"
    "page_without_match http n (listing_url c l y) \<longrightarrow> 100 \<le> l"
    "p0 \<le> 100 \<longrightarrow> l \<le> 100"
    by blast
  have "l = p"
  proof (rule ccontr)
    assume ne: "l \<noteq> p"
    show False
    proof (cases "l < p")
      case True
      then have "page_without_match http n (listing_url c l y)" using assms(3) l(1) by simp
      then have "100 \<le> l" using l(5) by simp
      then show False using True assms(2) by simp
    next
      case False
      then have lt: "p < l" using ne by simp
      then have "page_without_match http n (listing_url c p y)" using l(3) assms(1) by simp
      then have "p = 100" using assms(4) by simp
      moreover have "l \<le> 100" using l(6) assms(1,2) by simp
      ultimately show False using lt by simp
    qed
  qed
  then show ?thesis using l(2,4) by (simp add: prod_eq_iff)
qed

lemma ranking_loop_app_stops_at:
  assumes "p0 \<le> p" and "p \<le> 100"
    and "\<forall>q. p0 \<le> q \<and> q < p \<longrightarrow> page_without_match http n (listing_url c q y)"
    and "\<not> page_without_match http n (listing_url c p y) \<or> p = 100"
  shows "ranking_loop_app http ny n c y p0 log =
     ((case page_body_app http ny n y (listing_url c p y) of
         Inr (Return r) \<Rightarrow> Inr (Some r) | _ \<Rightarrow> Inr None),
      log @ map (\<lambda>q. listing_url c q y) [p0..<Suc p])"
proof -
  from ranking_loop_app_stop [of p0 http ny n c y log] obtain l where l: "p0 \<le> l"
    "snd (ranking_loop_app http ny n c y p0 log) = log @ map (\<lambda>q. listing_url c q y) [p0..<Suc l]"
    "\<forall>q. p0 \<le> q \<and> q < l \<longrightarrow> page_without_match http n (listing_url c q y)"
    "fst (ranking_loop_app http ny n c y p0 log) =
         (case page_body_app http ny n y (listing_url c l y) of
            Inr (Return r) \<Rightarrow> Inr (Some r) | _ \<Rightarrow> Inr None)"
    "page_without_match http n (listing_url c l y) \<longrightarrow> 100 \<le> l"
    "p0 \<le> 100 \<longrightarrow> l \<le> 100"
    by blast
  have "l = p"
  proof (rule ccontr)
    assume ne: "l \<noteq> p"
    show False
    proof (cases "l < p")
      case True
      then have "page_without_match http n (listing_url c l y)" using assms(3) l(1) by simp
      then have "100 \<le> l" using l(5) by simp
      then show False using True assms(2) by simp
    next
      case False
      then have lt: "p < l" using ne by simp
      then have "page_without_match http n (listing_url c p y)" using l(3) assms(1) by simp
      then have "p = 100" using assms(4) by simp
      moreover have "l \<le> 100" using l(6) assms(1,2) by simp
      ultimately show False using lt by simp
    qed
  qed
  then show ?thesis using l(2,4) by (simp add: prod_eq_iff)
qed

lemma empty_page_not_without_match:
  "listing_rows http u = Some rows \<Longrightarrow> length rows \<le> 1 \<Longrightarrow> \<not> page_without_match http n u"
  by (simp add: page_without_match_def)

lemma empty_page_cli_Break:
  "listing_rows http u = Some rows \<Longrightarrow> length rows \<le> 1 \<Longrightarrow> page_body_cli http n c u p = Inr Break"
  by (simp add: page_body_cli_rows)

lemma empty_page_app_Break:
  "listing_rows http u = Some rows \<Longrightarrow> length rows \<le> 1 \<Longrightarrow> page_body_app http ny n y u = Inr Break"
  by (simp add: page_body_app_rows)

text \<open>Facts about one run of each loop from page 1, in the form the claims use.\<close>

lemma cli_run_facts:
  "\<exists>l. 1 \<le> l \<and> l \<le> 100
     \<and> snd (ranking_loop_cli http n c y 1 []) = map (\<lambda>q. listing_url c q y) [1..<Suc l]
     \<and> (\<forall>q. 1 \<le> q \<and> q < l \<longrightarrow> page_without_match http n (listing_url c q y))
     \<and> get_scimago_ranking_cli http n c y =
         (case page_body_cli http n c (listing_url c l y) l of
            Inr (Return r) \<Rightarrow> Inr (Some r) | _ \<Rightarrow> Inr None)
     \<and> (page_without_match http n (listing_url c l y) \<longrightarrow> l = 100)"
proof -
  from ranking_loop_cli_stop [of 1 http n c y "[]"] obtain l where l: "1 \<le> l"
    "snd (ranking_loop_cli http n c y 1 []) = [] @ map (\<lambda>q. listing_url c q y) [1..<Suc l]"
    "\<forall>q. 1 \<le> q \<and> q < l \<longrightarrow> page_without_match http n (listing_url c q y)"
    "fst (ranking_loop_cli http n c y 1 []) =
         (case page_body_cli http n c (listing_url c l y) l of
            Inr (Return r) \<Rightarrow> Inr (Some r) | _ \<Rightarrow> Inr None)"
    "page_without_match http n (listing_url c l y) \<longrightarrow> 100 \<le> l"
    "(1::nat) \<le> 100 \<longrightarrow> l \<le> 100"
    by blast
  have "l \<le> 100" using l(6) by simp
  moreover have "page_without_match http n (listing_url c l y) \<longrightarrow> l = 100"
    using l(5) \<open>l \<le> 100\<close> by simp
  moreover have "snd (ranking_loop_cli http n c y 1 []) = map (\<lambda>q. listing_url c q y) [1..<Suc l]"
    using l(2) by simp
  moreover have "get_scimago_ranking_cli http n c y =
         (case page_body_cli http n c (listing_url c l y) l of
            Inr (Return r) \<Rightarrow> Inr (Some r) | _ \<Rightarrow> Inr None)"
    using l(4) by (simp only: get_scimago_ranking_cli_def)
  ultimately show ?thesis using l(1,3) by blast
qed

lemma app_run_facts:
  "\<exists>l. 1 \<le> l \<and> l \<le> 100
     \<and> snd (ranking_loop_app http ny n c y 1 []) = map (\<lambda>q. listing_url c q y) [1..<Suc l]
     \<and> (\<forall>q. 1 \<le> q \<and> q < l \<longrightarrow> page_without_match http n (listing_url c q y))
     \<and> get_scimago_ranking_app http ny n c y =
         (case page_body_app http ny n y (listing_url c l y) of
            Inr (Return r) \<Rightarrow> Inr (Some r) | _ \<Rightarrow> Inr None)
     \<and> (page_without_match http n (listing_url c l y) \<longrightarrow> l = 100)"
proof -
  from ranking_loop_app_stop [of 1 http ny n c y "[]"] obtain l where l: "1 \<le> l"
    "snd (ranking_loop_app http ny n c y 1 []) = [] @ map (\<lambda>q. listing_url c q y) [1..<Suc l]"
    "\<forall>q. 1 \<le> q \<and> q < l \<longrightarrow> page_without_match http n (listing_url c q y)"
    "fst (ranking_loop_app http ny n c y 1 []) =
         (case page_body_app http ny n y (listing_url c l y) of
            Inr (Return r) \<Rightarrow> Inr (Some r) | _ \<Rightarrow> Inr None)"
    "page_without_match http n (listing_url c l y) \<longrightarrow> 100 \<le> l"
    "(1::nat) \<le> 100 \<longrightarrow> l \<le> 100"
    by blast
  have "l \<le> 100" using l(6) by simp
  moreover have "page_without_match http n (listing_url c l y) \<longrightarrow> l = 100"
    using l(5) \<open>l \<le> 100\<close> by simp
  moreover have "snd (ranking_loop_app http ny n c y 1 []) = map (\<lambda>q. listing_url c q y) [1..<Suc l]"
    using l(2) by simp
  moreover have "get_scimago_ranking_app http ny n c y =
         (case page_body_app http ny n y (listing_url c l y) of
            Inr (Return r) \<Rightarrow> Inr (Some r) | _ \<Rightarrow> Inr None)"
    using l(4) by (simp only: get_scimago_ranking_app_def)
  ultimately show ?thesis using l(1,3) by blast
qed


lemma cli_run_empty_page:
  assumes "1 \<le> q" and "listing_rows http (listing_url c q y) = Some rows" and "length rows \<le> 1"
  shows "length (snd (ranking_loop_cli http n c y 1 [])) \<le> q
     \<and> (length (snd (ranking_loop_cli http n c y 1 [])) = q
          \<longrightarrow> get_scimago_ranking_cli http n c y = Inr None)"
proof -
  from cli_run_facts [of http n c y] obtain l where l: "1 \<le> l" "l \<le> 100"
    "snd (ranking_loop_cli http n c y 1 []) = map (\<lambda>q. listing_url c q y) [1..<Suc l]"
    "\<forall>q. 1 \<le> q \<and> q < l \<longrightarrow> page_without_match http n (listing_url c q y)"
    "get_scimago_ranking_cli http n c y =
         (case page_body_cli http n c (listing_url c l y) l of
            Inr (Return r) \<Rightarrow> Inr (Some r) | _ \<Rightarrow> Inr None)"
    by blast
  have len: "length (snd (ranking_loop_cli http n c y 1 [])) = l" using l(1,3) by simp
  have nm: "\<not> page_without_match http n (listing_url c q y)"
    using empty_page_not_without_match [OF assms(2,3)] .
  then have "l \<le> q" using l(4) assms(1) by (meson not_le)
  moreover have "l = q \<longrightarrow> get_scimago_ranking_cli http n c y = Inr None"
    using l(5) empty_page_cli_Break [OF assms(2,3), of n c q] by auto
  ultimately show ?thesis unfolding len by blast
qed

lemma app_run_empty_page:
  assumes "1 \<le> q" and "listing_rows http (listing_url c q y) = Some rows" and "length rows \<le> 1"
  shows "length (snd (ranking_loop_app http ny n c y 1 [])) \<le> q
     \<and> (length (snd (ranking_loop_app http ny n c y 1 [])) = q
          \<longrightarrow> get_scimago_ranking_app http ny n c y = Inr None)"
proof -
  from app_run_facts [of http ny n c y] obtain l where l: "1 \<le> l" "l \<le> 100"
    "snd (ranking_loop_app http ny n c y 1 []) = map (\<lambda>q. listing_url c q y) [1..<Suc l]"
    "\<forall>q. 1 \<le> q \<and> q < l \<longrightarrow> page_without_match http n (listing_url c q y)"
    "get_scimago_ranking_app http ny n c y =
         (case page_body_app http ny n y (listing_url c l y) of
            Inr (Return r) \<Rightarrow> Inr (Some r) | _ \<Rightarrow> Inr None)"
    by blast
  have len: "length (snd (ranking_loop_app http ny n c y 1 [])) = l" using l(1,3) by simp
  have nm: "\<not> page_without_match http n (listing_url c q y)"
    using empty_page_not_without_match [OF assms(2,3)] .
  then have "l \<le> q" using l(4) assms(1) by (meson not_le)
  moreover have "l = q \<longrightarrow> get_scimago_ranking_app http ny n c y = Inr None"
    using l(5) empty_page_app_Break [OF assms(2,3), of ny n y] by auto
  ultimately show ?thesis unfolding len by blast
qed

lemma cli_run_log:
  "length (snd (ranking_loop_cli http n c y 1 [])) \<le> 100
   \<and> snd (ranking_loop_cli http n c y 1 []) =
       map (\<lambda>q. listing_url c q y) [1..<Suc (length (snd (ranking_loop_cli http n c y 1 [])))]"
proof -
  from cli_run_facts [of http n c y] obtain l where l: "1 \<le> l" "l \<le> 100"
    "snd (ranking_loop_cli http n c y 1 []) = map (\<lambda>q. listing_url c q y) [1..<Suc l]"
    by blast
  have len: "length (snd (ranking_loop_cli http n c y 1 [])) = l" using l(1,3) by simp
  show ?thesis using l(2,3) by (simp only: len) simp
qed

lemma app_run_log:
  "length (snd (ranking_loop_app http ny n c y 1 [])) \<le> 100
   \<and> snd (ranking_loop_app http ny n c y 1 []) =
       map (\<lambda>q. listing_url c q y) [1..<Suc (length (snd (ranking_loop_app http ny n c y 1 [])))]"
proof -
  from app_run_facts [of http ny n c y] obtain l where l: "1 \<le> l" "l \<le> 100"
    "snd (ranking_loop_app http ny n c y 1 []) = map (\<lambda>q. listing_url c q y) [1..<Suc l]"
    by blast
  have len: "length (snd (ranking_loop_app http ny n c y 1 [])) = l" using l(1,3) by simp
  show ?thesis using l(2,3) by (simp only: len) simp
qed

text \<open>
  C2. The pagination loop of \<open>get_scimago_ranking\<close> is a total function, in both programs:
  it requests pages 1, 2, ... in order and at most 100 of them; a page fetched with
  status 200 that has at most one table row is the last page requested if the loop
  reaches it, no later page is requested, and the result is then not-found.
\<close>

theorem pagination_terminates:
  "length (snd (ranking_loop_cli http n c y 1 [])) \<le> 100
   \<and> snd (ranking_loop_cli http n c y 1 []) =
       map (\<lambda>q. listing_url c q y) [1..<Suc (length (snd (ranking_loop_cli http n c y 1 [])))]
   \<and> (\<forall>q rows. 1 \<le> q \<and> listing_rows http (listing_url c q y) = Some rows \<and> length rows \<le> 1 \<longrightarrow>
         length (snd (ranking_loop_cli http n c y 1 [])) \<le> q
         \<and> (length (snd (ranking_loop_cli http n c y 1 [])) = q
              \<longrightarrow> get_scimago_ranking_cli http n c y = Inr None))
   \<and> length (snd (ranking_loop_app http ny n c y 1 [])) \<le> 100
   \<and> snd (ranking_loop_app http ny n c y 1 []) =
       map (\<lambda>q. listing_url c q y) [1..<Suc (length (snd (ranking_loop_app http ny n c y 1 [])))]
   \<and> (\<forall>q rows. 1 \<le> q \<and> listing_rows http (listing_url c q y) = Some rows \<and> length rows \<le> 1 \<longrightarrow>
         length (snd (ranking_loop_app http ny n c y 1 [])) \<le> q
         \<and> (length (snd (ranking_loop_app http ny n c y 1 [])) = q
              \<longrightarrow> get_scimago_ranking_app http ny n c y = Inr None))"
  using cli_run_log [of http n c y] app_run_log [of http ny n c y]
    cli_run_empty_page [of _ http c y _ n] app_run_empty_page [of _ http c y _ ny n]
  by blast


text \<open>Three pages of data and an empty fourth page: four requests, not-found.\<close>

theorem pagination_terminates_witness:
  "listing_rows http_four (listing_url ''1702'' 4 None) = Some [header_row]
   \<and> snd (ranking_loop_cli http_four ''Physical Review'' ''1702'' None 1 []) =
        map (\<lambda>q. listing_url ''1702'' q None) [1, 2, 3, 4]
   \<and> get_scimago_ranking_cli http_four ''Physical Review'' ''1702'' None = Inr None
   \<and> snd (ranking_loop_app http_four 2026 ''Physical Review'' ''1702'' None 1 []) =
        map (\<lambda>q. listing_url ''1702'' q None) [1, 2, 3, 4]
   \<and> get_scimago_ranking_app http_four 2026 ''Physical Review'' ''1702'' None = Inr None"
proof -
  have rows: "listing_rows http_four (listing_url ''1702'' 4 None) = Some [header_row]"
    by code_simp
  have lc: "snd (ranking_loop_cli http_four ''Physical Review'' ''1702'' None 1 []) =
        map (\<lambda>q. listing_url ''1702'' q None) [1, 2, 3, 4]"
    by code_simp
  have la: "snd (ranking_loop_app http_four 2026 ''Physical Review'' ''1702'' None 1 []) =
        map (\<lambda>q. listing_url ''1702'' q None) [1, 2, 3, 4]"
    by code_simp
  note T = pagination_terminates [of http_four "''Physical Review''" "''1702''" None 2026]
  have hyp: "1 \<le> (4::nat) \<and> listing_rows http_four (listing_url ''1702'' 4 None) = Some [header_row]
      \<and> length [header_row] \<le> 1"
    using rows by simp
  have len_c: "length (snd (ranking_loop_cli http_four ''Physical Review'' ''1702'' None 1 [])) = 4"
    unfolding lc by simp
  have len_a: "length (snd (ranking_loop_app http_four 2026 ''Physical Review'' ''1702'' None 1 [])) = 4"
    unfolding la by simp
  have rc: "get_scimago_ranking_cli http_four ''Physical Review'' ''1702'' None = Inr None"
    using T [THEN conjunct2, THEN conjunct2, THEN conjunct1, rule_format, OF hyp,
             THEN conjunct2, THEN mp, OF len_c] .
  have ra: "get_scimago_ranking_app http_four 2026 ''Physical Review'' ''1702'' None = Inr None"
    using T [THEN conjunct2, THEN conjunct2, THEN conjunct2, THEN conjunct2, THEN conjunct2,
             rule_format, OF hyp, THEN conjunct2, THEN mp, OF len_a] .
  show ?thesis using rows lc la rc ra by (intro conjI)
qed

section \<open>Failures at the operation boundary\<close>




lemma app_run_returns: "\<exists>r. get_scimago_ranking_app http ny n c y = Inr r"
proof -
  from app_run_facts [of http ny n c y] obtain l where
    "get_scimago_ranking_app http ny n c y =
         (case page_body_app http ny n y (listing_url c l y) of
            Inr (Return r) \<Rightarrow> Inr (Some r) | _ \<Rightarrow> Inr None)"
    by blast
  then show ?thesis by (auto split: sum.splits step.splits)
qed




section \<open>The record that the locator returns\<close>

lemma cli_run_Some:
  assumes "get_scimago_ranking_cli http n c y = Inr (Some r)"
  shows "\<exists>p. 1 \<le> p \<and> p \<le> 100
     \<and> (\<forall>q. 1 \<le> q \<and> q < p \<longrightarrow> page_without_match http n (listing_url c q y))
     \<and> page_body_cli http n c (listing_url c p y) p = Inr (Return r)"
proof -
  from cli_run_facts [of http n c y] obtain l where l: "1 \<le> l" "l \<le> 100"
    "\<forall>q. 1 \<le> q \<and> q < l \<longrightarrow> page_without_match http n (listing_url c q y)"
    "get_scimago_ranking_cli http n c y =
         (case page_body_cli http n c (listing_url c l y) l of
            Inr (Return r) \<Rightarrow> Inr (Some r) | _ \<Rightarrow> Inr None)"
    by blast
  from l(4) assms have "page_body_cli http n c (listing_url c l y) l = Inr (Return r)"
    by (auto split: sum.splits step.splits)
  with l(1,2,3) show ?thesis by blast
qed

lemma app_run_Some:
  assumes "get_scimago_ranking_app http ny n c y = Inr (Some r)"
  shows "\<exists>p. 1 \<le> p \<and> p \<le> 100
     \<and> (\<forall>q. 1 \<le> q \<and> q < p \<longrightarrow> page_without_match http n (listing_url c q y))
     \<and> page_body_app http ny n y (listing_url c p y) = Inr (Return r)"
proof -
  from app_run_facts [of http ny n c y] obtain l where l: "1 \<le> l" "l \<le> 100"
    "\<forall>q. 1 \<le> q \<and> q < l \<longrightarrow> page_without_match http n (listing_url c q y)"
    "get_scimago_ranking_app http ny n c y =
         (case page_body_app http ny n y (listing_url c l y) of
            Inr (Return r) \<Rightarrow> Inr (Some r) | _ \<Rightarrow> Inr None)"
    by blast
  from l(4) assms have "page_body_app http ny n y (listing_url c l y) = Inr (Return r)"
    by (auto split: sum.splits step.splits)
  with l(1,2,3) show ?thesis by blast
qed

lemma cli_first_match:
  assumes "get_scimago_ranking_cli http n c y = Inr (Some r)"
  shows "contains (lower n) (lower (Journal r))
     \<and> (\<exists>p rows pre row post. 1 \<le> p \<and> p \<le> 100 \<and> Page_Found r = p
           \<and> (\<forall>q. 1 \<le> q \<and> q < p \<longrightarrow> page_without_match http n (listing_url c q y))
           \<and> listing_rows http (listing_url c p y) = Some rows
           \<and> rows = pre @ row # post
           \<and> (\<forall>x\<in>set pre. \<not> row_matches n x)
           \<and> row_title row = Some (Journal r)
           \<and> first_cell row = Some (Rank r)
           \<and> Quartile r = quartile_of row
           \<and> Number_journals r = listing_total http (listing_url c p y))"
proof -
  from cli_run_Some [OF assms] obtain p where p: "1 \<le> p" "p \<le> 100"
    "\<forall>q. 1 \<le> q \<and> q < p \<longrightarrow> page_without_match http n (listing_url c q y)"
    "page_body_cli http n c (listing_url c p y) p = Inr (Return r)"
    by blast
  from page_body_cli_Return [OF p(4)] obtain rows pre row post where
    h: "listing_rows http (listing_url c p y) = Some rows" "rows = pre @ row # post"
      "\<forall>x\<in>set pre. \<not> row_matches n x" "row_title row = Some (Journal r)"
      "contains (lower n) (lower (Journal r))" "first_cell row = Some (Rank r)"
      "r = \<lparr>Journal = Journal r, Rank = Rank r,
            Number_journals = listing_total http (listing_url c p y),
            Quartile = quartile_of row, Category_ID = c, Page_Found = p\<rparr>"
    by blast
  have f: "Page_Found r = p" "Quartile r = quartile_of row"
    "Number_journals r = listing_total http (listing_url c p y)"
    by (subst h(7), simp)+
  show ?thesis using p(1,2,3) h(1-6) f by blast
qed

lemma app_first_match:
  assumes "get_scimago_ranking_app http ny n c y = Inr (Some r)"
  shows "contains (lower n) (lower (App_Journal r))
     \<and> (\<exists>p rows pre row post rank. 1 \<le> p \<and> p \<le> 100
           \<and> (\<forall>q. 1 \<le> q \<and> q < p \<longrightarrow> page_without_match http n (listing_url c q y))
           \<and> listing_rows http (listing_url c p y) = Some rows
           \<and> rows = pre @ row # post
           \<and> (\<forall>x\<in>set pre. \<not> row_matches n x)
           \<and> row_title row = Some (App_Journal r)
           \<and> first_cell row = Some rank
           \<and> App_Quartile r = quartile_of row
           \<and> percentile rank (listing_total http (listing_url c p y)) = Inr (App_Percentile r)
           \<and> App_Category_Rank r =
               ''#'' @ rank @ '' of '' @ str_total (listing_total http (listing_url c p y)))"
proof -
  from app_run_Some [OF assms] obtain p where p: "1 \<le> p" "p \<le> 100"
    "\<forall>q. 1 \<le> q \<and> q < p \<longrightarrow> page_without_match http n (listing_url c q y)"
    "page_body_app http ny n y (listing_url c p y) = Inr (Return r)"
    by blast
  from page_body_app_Return [OF p(4)] obtain rows pre row post rank where
    h: "listing_rows http (listing_url c p y) = Some rows" "rows = pre @ row # post"
      "\<forall>x\<in>set pre. \<not> row_matches n x" "row_title row = Some (App_Journal r)"
      "contains (lower n) (lower (App_Journal r))" "first_cell row = Some rank"
      "percentile rank (listing_total http (listing_url c p y)) = Inr (App_Percentile r)"
      "r = \<lparr>App_Journal = App_Journal r,
            App_Category_name = [listing_category http (listing_url c p y)],
            App_Category_Rank =
              ''#'' @ rank @ '' of '' @ str_total (listing_total http (listing_url c p y)),
            App_Percentile = App_Percentile r, App_Quartile = quartile_of row,
            App_Year = year_shown ny y\<rparr>"
    by blast
  have f: "App_Quartile r = quartile_of row"
    "App_Category_Rank r =
       ''#'' @ rank @ '' of '' @ str_total (listing_total http (listing_url c p y))"
    by (subst h(8), simp)+
  show ?thesis using p(1,2,3) h(1-7) f by blast
qed

text \<open>
  C10. When \<open>get_scimago_ranking\<close> returns a record, in either program, the query is a
  case-insensitive substring of the record's journal title, and the record is read from
  the first matching row in page-then-row order: some page \<open>p\<close> of the pages 1 to 100
  was fetched, every page before it was fetched and has no matching row, the rows of page
  \<open>p\<close> before the row have no match, and title, rank, quartile and total are those of
  that row and page.
\<close>

theorem record_from_first_matching_row:
  "(get_scimago_ranking_cli http n c y = Inr (Some r) \<longrightarrow>
      contains (lower n) (lower (Journal r))
      \<and> (\<exists>p rows pre row post. 1 \<le> p \<and> p \<le> 100 \<and> Page_Found r = p
           \<and> (\<forall>q. 1 \<le> q \<and> q < p \<longrightarrow> page_without_match http n (listing_url c q y))
           \<and> listing_rows http (listing_url c p y) = Some rows
           \<and> rows = pre @ row # post
           \<and> (\<forall>x\<in>set pre. \<not> row_matches n x)
           \<and> row_title row = Some (Journal r)
           \<and> first_cell row = Some (Rank r)
           \<and> Quartile r = quartile_of row
           \<and> Number_journals r = listing_total http (listing_url c p y)))
   \<and> (get_scimago_ranking_app http ny n c y = Inr (Some ra) \<longrightarrow>
      contains (lower n) (lower (App_Journal ra))
      \<and> (\<exists>p rows pre row post rank. 1 \<le> p \<and> p \<le> 100
           \<and> (\<forall>q. 1 \<le> q \<and> q < p \<longrightarrow> page_without_match http n (listing_url c q y))
           \<and> listing_rows http (listing_url c p y) = Some rows
           \<and> rows = pre @ row # post
           \<and> (\<forall>x\<in>set pre. \<not> row_matches n x)
           \<and> row_title row = Some (App_Journal ra)
           \<and> first_cell row = Some rank
           \<and> App_Quartile ra = quartile_of row
           \<and> percentile rank (listing_total http (listing_url c p y)) = Inr (App_Percentile ra)
           \<and> App_Category_Rank ra =
               ''#'' @ rank @ '' of '' @ str_total (listing_total http (listing_url c p y))))"
  using cli_first_match [of http n c y r] app_first_match [of http ny n c y ra] by blast


text \<open>The end-to-end scenario of the specification: the query in lower case finds the row
  of "Nature" on page 1 of category 1000.\<close>

theorem record_from_first_matching_row_witness:
  "get_scimago_ranking_cli http_nature ''nature'' ''1000'' None =
     Inr (Some \<lparr>Journal = ''Nature'', Rank = ''1'', Number_journals = Some 1200,
                 Quartile = ''Q1'', Category_ID = ''1000'', Page_Found = 1\<rparr>)
   \<and> contains (lower ''nature'') (lower ''Nature'')
   \<and> get_scimago_ranking_app http_nature 2026 ''nature'' ''1000'' None =
     Inr (Some \<lparr>App_Journal = ''Nature'', App_Category_name = ['' Multidisciplinary''],
                 App_Category_Rank = ''#1 of 1200'', App_Percentile = (100, 1200),
                 App_Quartile = ''Q1'', App_Year = YearNone\<rparr>)"
proof -
  let ?rc = "\<lparr>Journal = ''Nature'', Rank = ''1'', Number_journals = Some 1200,
                 Quartile = ''Q1'', Category_ID = ''1000'', Page_Found = 1\<rparr>"
  let ?ra = "\<lparr>App_Journal = ''Nature'', App_Category_name = ['' Multidisciplinary''],
                 App_Category_Rank = ''#1 of 1200'', App_Percentile = (100, 1200),
                 App_Quartile = ''Q1'', App_Year = YearNone\<rparr>"
  have e1: "get_scimago_ranking_cli http_nature ''nature'' ''1000'' None = Inr (Some ?rc)"
    by code_simp
  have e2: "get_scimago_ranking_app http_nature 2026 ''nature'' ''1000'' None = Inr (Some ?ra)"
    by code_simp
  note T = record_from_first_matching_row
    [of http_nature "''nature''" "''1000''" None ?rc 2026 ?ra]
  have "contains (lower ''nature'') (lower (Journal ?rc))"
    using T [THEN conjunct1, THEN mp, OF e1, THEN conjunct1] .
  then have "contains (lower ''nature'') (lower ''Nature'')" by simp
  with e1 e2 show ?thesis by (intro conjI)
qed

section \<open>Quartile of a row\<close>






section \<open>Category deduplication\<close>

lemma remdups_insert_seen:
  "k \<in> set B \<Longrightarrow> remdups (A @ k # B) = remdups (A @ B)"
  by (induction A) auto

lemma category_map_loop_keys:
  assumes "\<forall>l\<in>set links. attr ''href'' l \<noteq> None" and "distinct (map fst m)"
  shows "\<exists>m'. category_map_loop links m = Inr m'
     \<and> map fst m' = rev (remdups (rev (map fst m @ map link_id links)))
     \<and> (\<forall>(k, v)\<in>set m'. map_of (m @ map link_pair links) k = Some v)"
  using assms
proof (induction links arbitrary: m)
  case Nil
  then show ?case by (auto simp: distinct_remdups_id)
next
  case (Cons l links)
  from Cons.prems(1) obtain href where href: "attr ''href'' l = Some href" by auto
  have lid: "link_id l = cat_id_of_href href" by (simp add: link_id_def href)
  have rest: "\<forall>l\<in>set links. attr ''href'' l \<noteq> None" using Cons.prems(1) by simp
  show ?case
  proof (cases "map_of m (link_id l) = None")
    case True
    then have notin: "link_id l \<notin> set (map fst m)" by (simp add: map_of_eq_None_iff)
    let ?m = "m @ [(link_id l, get_text_strip l)]"
    have d: "distinct (map fst ?m)" using Cons.prems(2) notin by simp
    from Cons.IH [OF rest d] obtain m' where m': "category_map_loop links ?m = Inr m'"
      "map fst m' = rev (remdups (rev (map fst ?m @ map link_id links)))"
      "\<forall>(k, v)\<in>set m'. map_of (?m @ map link_pair links) k = Some v"
      by blast
    have "category_map_loop (l # links) m = Inr m'"
      using True m'(1) by (simp add: href lid [symmetric] Let_def)
    moreover have "map fst m' = rev (remdups (rev (map fst m @ map link_id (l # links))))"
      using m'(2) by simp
    moreover have "\<forall>(k, v)\<in>set m'. map_of (m @ map link_pair (l # links)) k = Some v"
      using m'(3) by (simp add: link_pair_def)
    ultimately show ?thesis by blast
  next
    case False
    then have isin: "link_id l \<in> set (map fst m)" by (simp add: map_of_eq_None_iff)
    from Cons.IH [OF rest Cons.prems(2)] obtain m' where m': "category_map_loop links m = Inr m'"
      "map fst m' = rev (remdups (rev (map fst m @ map link_id links)))"
      "\<forall>(k, v)\<in>set m'. map_of (m @ map link_pair links) k = Some v"
      by blast
    have "category_map_loop (l # links) m = Inr m'"
      using False m'(1) by (auto simp: href lid [symmetric] Let_def)
    moreover have "map fst m' = rev (remdups (rev (map fst m @ map link_id (l # links))))"
      using m'(2) isin remdups_insert_seen [of "link_id l" "rev (map fst m)" "rev (map link_id links)"]
      by simp
    moreover have "\<forall>(k, v)\<in>set m'. map_of (m @ map link_pair (l # links)) k = Some v"
    proof (clarify)
      fix k v assume kv: "(k, v) \<in> set m'"
      then have a: "map_of (m @ map link_pair links) k = Some v" using m'(3) by auto
      show "map_of (m @ map link_pair (l # links)) k = Some v"
      proof (cases "map_of m k")
        case None
        then have "k \<noteq> link_id l" using False by auto
        then show ?thesis using a None by (simp add: map_add_def link_pair_def)
      next
        case (Some w)
        then show ?thesis using a by (simp add: map_add_def)
      qed
    qed
    ultimately show ?thesis by blast
  qed
qed

lemma cat_links_have_href: "\<forall>l\<in>set (find_all is_cat_link soup). attr ''href'' l \<noteq> None"
  by (auto simp: find_all_def is_cat_link_def split: option.splits)




section \<open>Selecting the candidate\<close>

lemma select_candidate_cli_first:
  assumes "candidates soup = a # rest"
  shows "select_candidate_cli soup =
     (case attr ''href'' a of
        None \<Rightarrow> Inl KeyError
      | Some h \<Rightarrow> (case candidate_title a of
                     None \<Rightarrow> Inl AttributeError
                   | Some t \<Rightarrow> Inr (Some (h, t))))"
  using assms
  by (auto simp: candidates_def select_candidate_cli_def find_first_def candidate_title_def
           split: list.splits option.splits)

lemma select_loop_app_reaches:
  assumes "\<forall>x\<in>set pre. attr ''href'' x \<noteq> None \<and> candidate_title x \<noteq> None \<and> \<not> title_equals n x"
    and "attr ''href'' a = Some h" and "candidate_title a = Some t" and "lower t = lower n"
  shows "select_loop_app n (pre @ a # post) cur = Inr (Some (h, t))"
  using assms
  by (induction pre arbitrary: cur)
     (auto simp: candidate_title_def title_equals_def Let_def split: option.splits)

lemma select_candidate_app_loop:
  "candidates soup \<noteq> [] \<Longrightarrow>
   select_candidate_app n soup = select_loop_app n (candidates soup) None"
  by (auto simp: candidates_def select_candidate_app_def split: list.splits)

lemma extract_categories_total: "\<exists>cats. extract_categories soup = Inr cats"
proof -
  have d: "distinct (map fst ([] :: (string \<times> string) list))" by simp
  from category_map_loop_keys [OF cat_links_have_href d, of soup] obtain m' where
    "category_map_loop (find_all is_cat_link soup) [] = Inr m'" by auto
  then show ?thesis by (simp add: extract_categories_def)
qed

text \<open>
  C1 (as amended). When the search succeeds and the first results container has a link:
  the command-line program selects the first link of the container, whatever the titles
  are; the interactive form selects the first link whose display title equals the query
  case-insensitively, provided every link before it has a target and a title. The
  selected link's target, made absolute, is the profile page that is fetched, and its
  title is the journal title that is returned.
\<close>

theorem candidate_selection:
  "(http search_url [(''q'', n)] = Some resp
      \<and> candidates (content resp) = a # rest
      \<and> attr ''href'' a = Some h \<and> h \<noteq> [] \<and> candidate_title a = Some t
      \<and> http (absolute_url h) [] = Some profile_resp
    \<longrightarrow> (\<exists>cats. extract_categories (content profile_resp) = Inr cats
          \<and> get_journal_categories_cli http n =
              Inr (Some \<lparr>journal = t, categories = cats, url = absolute_url h\<rparr>)))
   \<and> (http search_url [(''q'', n)] = Some resp
      \<and> candidates (content resp) = pre @ b # post
      \<and> (\<forall>x\<in>set pre. attr ''href'' x \<noteq> None \<and> candidate_title x \<noteq> None \<and> \<not> title_equals n x)
      \<and> attr ''href'' b = Some hb \<and> hb \<noteq> [] \<and> candidate_title b = Some tb \<and> lower tb = lower n
      \<and> http (absolute_url hb) [] = Some profile_resp_b
    \<longrightarrow> (\<exists>cats. extract_categories (content profile_resp_b) = Inr cats
          \<and> get_journal_categories_app http n =
              Inr (Some (tb, \<lparr>Category = map c_name cats, ids = map c_id cats\<rparr>))))"
proof (intro conjI impI)
  assume h: "http search_url [(''q'', n)] = Some resp
      \<and> candidates (content resp) = a # rest
      \<and> attr ''href'' a = Some h \<and> h \<noteq> [] \<and> candidate_title a = Some t
      \<and> http (absolute_url h) [] = Some profile_resp"
  from extract_categories_total [of "content profile_resp"] obtain cats where
    cats: "extract_categories (content profile_resp) = Inr cats" by blast
  have sel: "select_candidate_cli (content resp) = Inr (Some (h, t))"
    using h select_candidate_cli_first [of "content resp" a rest] by simp
  have "get_journal_categories_cli http n =
      Inr (Some \<lparr>journal = t, categories = cats, url = absolute_url h\<rparr>)"
    using h sel cats
    by (simp add: get_journal_categories_cli_def journal_categories_cli_body_def catch_all_def)
  with cats show "\<exists>cats. extract_categories (content profile_resp) = Inr cats
          \<and> get_journal_categories_cli http n =
              Inr (Some \<lparr>journal = t, categories = cats, url = absolute_url h\<rparr>)" by blast
next
  assume h: "http search_url [(''q'', n)] = Some resp
      \<and> candidates (content resp) = pre @ b # post
      \<and> (\<forall>x\<in>set pre. attr ''href'' x \<noteq> None \<and> candidate_title x \<noteq> None \<and> \<not> title_equals n x)
      \<and> attr ''href'' b = Some hb \<and> hb \<noteq> [] \<and> candidate_title b = Some tb \<and> lower tb = lower n
      \<and> http (absolute_url hb) [] = Some profile_resp_b"
  from extract_categories_total [of "content profile_resp_b"] obtain cats where
    cats: "extract_categories (content profile_resp_b) = Inr cats" by blast
  from h have ne: "candidates (content resp) \<noteq> []" by simp
  have "select_loop_app n (pre @ b # post) None = Inr (Some (hb, tb))"
    using h by (intro select_loop_app_reaches) auto
  then have sel: "select_candidate_app n (content resp) = Inr (Some (hb, tb))"
    using h select_candidate_app_loop [OF ne, of n] by simp
  have "get_journal_categories_app http n =
      Inr (Some (tb, \<lparr>Category = map c_name cats, ids = map c_id cats\<rparr>))"
    using h sel cats
    by (simp add: get_journal_categories_app_def journal_categories_app_body_def catch_all_def)
  with cats show "\<exists>cats. extract_categories (content profile_resp_b) = Inr cats
          \<and> get_journal_categories_app http n =
              Inr (Some (tb, \<lparr>Category = map c_name cats, ids = map c_id cats\<rparr>))" by blast
qed


text \<open>Two candidates, the second one equal to the query: the command-line program takes
  the first, the interactive form the second.\<close>

theorem candidate_selection_witness:
  "candidates search_page =
     [candidate ''journalsearch.php?q=1'' ''Nature Physics'',
      candidate ''journalsearch.php?q=2'' ''Nature'']
   \<and> get_journal_categories_cli http_search ''nature'' =
       Inr (Some \<lparr>journal = ''Nature Physics'',
                   categories = [\<lparr>c_name = ''Physics and Astronomy'', c_id = ''3100''\<rparr>],
                   url = ''https://www.scimagojr.com/journalsearch.php?q=1''\<rparr>)
   \<and> get_journal_categories_app http_search ''nature'' =
       Inr (Some (''Nature'', \<lparr>Category = [''Multidisciplinary''], ids = [''1000'']\<rparr>))"
proof -
  let ?a = "candidate ''journalsearch.php?q=1'' ''Nature Physics''"
  let ?b = "candidate ''journalsearch.php?q=2'' ''Nature''"
  let ?r1 = "\<lparr>status_code = 200, content = search_page\<rparr>"
  let ?p1 = "\<lparr>status_code = 200, content = physics_profile\<rparr>"
  let ?p2 = "\<lparr>status_code = 200, content = nature_profile\<rparr>"
  note T = candidate_selection [of http_search "''nature''" ?r1 ?a "[?b]"
      "''journalsearch.php?q=1''" "''Nature Physics''" ?p1 "[?a]" ?b "[]"
      "''journalsearch.php?q=2''" "''Nature''" ?p2]
  have c: "candidates search_page = [?a, ?b]" by code_simp
  have s: "http_search search_url [(''q'', ''nature'')] = Some ?r1"
    by (simp add: http_search_def)
  have a1: "attr ''href'' ?a = Some ''journalsearch.php?q=1''" by (simp add: candidate_def)
  have a2: "candidate_title ?a = Some ''Nature Physics''" by code_simp
  have a3: "http_search (absolute_url ''journalsearch.php?q=1'') [] = Some ?p1" by code_simp
  have b1: "attr ''href'' ?b = Some ''journalsearch.php?q=2''" by (simp add: candidate_def)
  have b2: "candidate_title ?b = Some ''Nature''" by code_simp
  have b3: "http_search (absolute_url ''journalsearch.php?q=2'') [] = Some ?p2" by code_simp
  have b4: "lower ''Nature'' = lower ''nature''" by code_simp
  have b5: "\<not> title_equals ''nature'' ?a" by code_simp
  have e1: "extract_categories physics_profile =
      Inr [\<lparr>c_name = ''Physics and Astronomy'', c_id = ''3100''\<rparr>]" by code_simp
  have e2: "extract_categories nature_profile =
      Inr [\<lparr>c_name = ''Multidisciplinary'', c_id = ''1000''\<rparr>]" by code_simp
  have h1: "http_search search_url [(''q'', ''nature'')] = Some ?r1
      \<and> candidates (content ?r1) = ?a # [?b]
      \<and> attr ''href'' ?a = Some ''journalsearch.php?q=1'' \<and> ''journalsearch.php?q=1'' \<noteq> []
      \<and> candidate_title ?a = Some ''Nature Physics''
      \<and> http_search (absolute_url ''journalsearch.php?q=1'') [] = Some ?p1"
    using s c a1 a2 a3 by simp
  have h2: "http_search search_url [(''q'', ''nature'')] = Some ?r1
      \<and> candidates (content ?r1) = [?a] @ ?b # []
      \<and> (\<forall>x\<in>set [?a]. attr ''href'' x \<noteq> None \<and> candidate_title x \<noteq> None
            \<and> \<not> title_equals ''nature'' x)
      \<and> attr ''href'' ?b = Some ''journalsearch.php?q=2'' \<and> ''journalsearch.php?q=2'' \<noteq> []
      \<and> candidate_title ?b = Some ''Nature'' \<and> lower ''Nature'' = lower ''nature''
      \<and> http_search (absolute_url ''journalsearch.php?q=2'') [] = Some ?p2"
    using s c a1 a2 b1 b2 b3 b4 b5 by simp
  from T [THEN conjunct1, THEN mp, OF h1] e1
  have r1: "get_journal_categories_cli http_search ''nature'' =
       Inr (Some \<lparr>journal = ''Nature Physics'',
                   categories = [\<lparr>c_name = ''Physics and Astronomy'', c_id = ''3100''\<rparr>],
                   url = ''https://www.scimagojr.com/journalsearch.php?q=1''\<rparr>)"
    by (auto simp: absolute_url_def)
  from T [THEN conjunct2, THEN mp, OF h2] e2
  have r2: "get_journal_categories_app http_search ''nature'' =
       Inr (Some (''Nature'', \<lparr>Category = [''Multidisciplinary''], ids = [''1000'']\<rparr>))"
    by auto
  show ?thesis using c r1 r2 by (intro conjI)
qed

text \<open>C1 as stated fails in both programs: for the query "nature" the command-line program
  selects "Nature Physics" although the candidate "Nature" equals the query; for the query
  "Science", which no title equals, the interactive form selects the last candidate
  "Nature", not the first.\<close>

theorem candidate_selection_counterexample:
  "map candidate_title (candidates search_page) = [Some ''Nature Physics'', Some ''Nature'']
   \<and> lower ''Nature'' = lower ''nature''
   \<and> get_journal_categories_cli http_search ''nature'' =
       Inr (Some \<lparr>journal = ''Nature Physics'',
                   categories = [\<lparr>c_name = ''Physics and Astronomy'', c_id = ''3100''\<rparr>],
                   url = ''https://www.scimagojr.com/journalsearch.php?q=1''\<rparr>)
   \<and> lower ''Nature Physics'' \<noteq> lower ''Science'' \<and> lower ''Nature'' \<noteq> lower ''Science''
   \<and> get_journal_categories_app http_search ''Science'' =
       Inr (Some (''Nature'', \<lparr>Category = [''Multidisciplinary''], ids = [''1000'']\<rparr>))"
proof -
  have 1: "map candidate_title (candidates search_page) = [Some ''Nature Physics'', Some ''Nature'']"
    by code_simp
  have 2: "lower ''Nature'' = lower ''nature''" by code_simp
  have 3: "get_journal_categories_cli http_search ''nature'' =
       Inr (Some \<lparr>journal = ''Nature Physics'',
                   categories = [\<lparr>c_name = ''Physics and Astronomy'', c_id = ''3100''\<rparr>],
                   url = ''https://www.scimagojr.com/journalsearch.php?q=1''\<rparr>)"
    by code_simp
  have 4: "lower ''Nature Physics'' \<noteq> lower ''Science''" by code_simp
  have 5: "lower ''Nature'' \<noteq> lower ''Science''" by code_simp
  have 6: "get_journal_categories_app http_search ''Science'' =
       Inr (Some (''Nature'', \<lparr>Category = [''Multidisciplinary''], ids = [''1000'']\<rparr>))"
    by code_simp
  show ?thesis using 1 2 3 4 5 6 by (intro conjI)
qed

section \<open>The two programs compared\<close>

lemma select_agree:
  assumes "candidates soup = a # rest" and "rest = [] \<or> title_equals n a"
  shows "select_candidate_app n soup = select_candidate_cli soup"
proof -
  have ne: "candidates soup \<noteq> []" using assms(1) by simp
  show ?thesis
    unfolding select_candidate_app_loop [OF ne] select_candidate_cli_first [OF assms(1)]
    using assms
    by (auto simp: candidate_title_def title_equals_def Let_def split: option.splits)
qed

lemma select_none:
  assumes "candidates soup = []"
  shows "select_candidate_cli soup = Inr None
     \<and> (select_candidate_app n soup = Inr None \<or> select_candidate_app n soup = Inl IndexError)"
  using assms
  by (auto simp: candidates_def select_candidate_cli_def select_candidate_app_def find_first_def
           split: list.splits)

lemma categories_agree:
  assumes "\<forall>resp a rest. http search_url [(''q'', n)] = Some resp
             \<and> candidates (content resp) = a # rest \<longrightarrow> rest = [] \<or> title_equals n a"
  shows "summary_app (get_journal_categories_app http n) = summary_cli (get_journal_categories_cli http n)"
proof (cases "http search_url [(''q'', n)]")
  case None
  then show ?thesis
    by (simp add: summary_app_def summary_cli_def get_journal_categories_app_def
          get_journal_categories_cli_def journal_categories_app_body_def
          journal_categories_cli_body_def catch_all_def)
next
  case (Some resp)
  show ?thesis
  proof (cases "candidates (content resp)")
    case Nil
    from select_none [OF Nil, of n] show ?thesis
      by (auto simp: Some summary_app_def summary_cli_def get_journal_categories_app_def
          get_journal_categories_cli_def journal_categories_app_body_def
          journal_categories_cli_body_def catch_all_def)
  next
    case (Cons a rest)
    then have "rest = [] \<or> title_equals n a" using assms Some by blast
    from select_agree [OF Cons this] have
      sel: "select_candidate_app n (content resp) = select_candidate_cli (content resp)" .
    show ?thesis
      by (auto simp: Some sel summary_app_def summary_cli_def get_journal_categories_app_def
          get_journal_categories_cli_def journal_categories_app_body_def
          journal_categories_cli_body_def catch_all_def
          split: sum.splits option.splits)
  qed
qed


lemma page_body_app_Return_cli:
  assumes "page_body_app http ny n y u = Inr (Return ra)"
  shows "\<exists>rc. page_body_cli http n c u p = Inr (Return rc)
     \<and> Journal rc = App_Journal ra \<and> Quartile rc = App_Quartile ra
     \<and> percentile (Rank rc) (Number_journals rc) = Inr (App_Percentile ra)
     \<and> App_Category_Rank ra = ''#'' @ Rank rc @ '' of '' @ str_total (Number_journals rc)"
proof -
  from page_body_app_Return [OF assms] obtain rows pre row post rank where
    h: "listing_rows http u = Some rows" "1 < length rows" "rows = pre @ row # post"
      "\<forall>x\<in>set pre. \<not> row_matches n x" "row_title row = Some (App_Journal ra)"
      "contains (lower n) (lower (App_Journal ra))" "first_cell row = Some rank"
      "percentile rank (listing_total http u) = Inr (App_Percentile ra)"
      "ra = \<lparr>App_Journal = App_Journal ra, App_Category_name = [listing_category http u],
             App_Category_Rank = ''#'' @ rank @ '' of '' @ str_total (listing_total http u),
             App_Percentile = App_Percentile ra, App_Quartile = quartile_of row,
             App_Year = year_shown ny y\<rparr>"
    by blast
  let ?rc = "\<lparr>Journal = App_Journal ra, Rank = rank, Number_journals = listing_total http u,
           Quartile = quartile_of row, Category_ID = c, Page_Found = p\<rparr>"
  have sc: "scan_rows_cli n c p (listing_total http u) rows = Inr (Some ?rc)"
    unfolding h(3) by (simp add: scan_rows_cli_hit [OF h(4,5,6)] h(7))
  have b: "page_body_cli http n c u p = Inr (Return ?rc)"
    using h(2) by (simp add: page_body_cli_rows [OF h(1)] sc)
  have q: "App_Quartile ra = quartile_of row"
    "App_Category_Rank ra = ''#'' @ rank @ '' of '' @ str_total (listing_total http u)"
    by (subst h(9), simp)+
  show ?thesis using b h(8) q by auto
qed

lemma page_body_cli_Return_app:
  assumes "page_body_cli http n c u p = Inr (Return rc)"
    and "percentile (Rank rc) (Number_journals rc) = Inr pct"
  shows "\<exists>ra. page_body_app http ny n y u = Inr (Return ra)
     \<and> App_Journal ra = Journal rc \<and> App_Quartile ra = Quartile rc
     \<and> App_Percentile ra = pct
     \<and> App_Category_Rank ra = ''#'' @ Rank rc @ '' of '' @ str_total (Number_journals rc)"
proof -
  from page_body_cli_Return [OF assms(1)] obtain rows pre row post where
    h: "listing_rows http u = Some rows" "1 < length rows" "rows = pre @ row # post"
      "\<forall>x\<in>set pre. \<not> row_matches n x" "row_title row = Some (Journal rc)"
      "contains (lower n) (lower (Journal rc))" "first_cell row = Some (Rank rc)"
      "rc = \<lparr>Journal = Journal rc, Rank = Rank rc, Number_journals = listing_total http u,
             Quartile = quartile_of row, Category_ID = c, Page_Found = p\<rparr>"
    by blast
  have nj: "Number_journals rc = listing_total http u" "Quartile rc = quartile_of row"
    by (subst h(8), simp)+
  let ?ra = "\<lparr>App_Journal = Journal rc, App_Category_name = [listing_category http u],
               App_Category_Rank = ''#'' @ Rank rc @ '' of '' @ str_total (listing_total http u),
               App_Percentile = pct, App_Quartile = quartile_of row,
               App_Year = year_shown ny y\<rparr>"
  have pc: "percentile (Rank rc) (listing_total http u) = Inr pct"
    using assms(2) nj(1) by simp
  have sc: "scan_rows_app n y ny (listing_total http u) (listing_category http u) rows = Inr (Some ?ra)"
    unfolding h(3) by (simp add: scan_rows_app_hit [OF h(4,5,6)] h(7) pc)
  have b: "page_body_app http ny n y u = Inr (Return ?ra)"
    using h(2) by (simp add: page_body_app_rows [OF h(1)] sc)
  show ?thesis using b nj by auto
qed

lemma locators_agree_app_Some:
  assumes "get_scimago_ranking_app http ny n c y = Inr (Some ra)"
  shows "\<exists>rc. get_scimago_ranking_cli http n c y = Inr (Some rc)
     \<and> Journal rc = App_Journal ra \<and> Quartile rc = App_Quartile ra
     \<and> percentile (Rank rc) (Number_journals rc) = Inr (App_Percentile ra)
     \<and> App_Category_Rank ra = ''#'' @ Rank rc @ '' of '' @ str_total (Number_journals rc)"
proof -
  from app_run_Some [OF assms] obtain p where p: "1 \<le> p" "p \<le> 100"
    "\<forall>q. 1 \<le> q \<and> q < p \<longrightarrow> page_without_match http n (listing_url c q y)"
    "page_body_app http ny n y (listing_url c p y) = Inr (Return ra)"
    by blast
  from page_body_app_Return_cli [OF p(4), of c p] obtain rc where
    rc: "page_body_cli http n c (listing_url c p y) p = Inr (Return rc)"
      "Journal rc = App_Journal ra" "Quartile rc = App_Quartile ra"
      "percentile (Rank rc) (Number_journals rc) = Inr (App_Percentile ra)"
      "App_Category_Rank ra = ''#'' @ Rank rc @ '' of '' @ str_total (Number_journals rc)"
    by blast
  have "\<not> page_without_match http n (listing_url c p y)"
    using rc(1) page_body_cli_Next [of http n c "listing_url c p y" p] by simp
  then have st: "\<not> page_without_match http n (listing_url c p y) \<or> p = 100" by simp
  have "get_scimago_ranking_cli http n c y = Inr (Some rc)"
    unfolding get_scimago_ranking_cli_def ranking_loop_cli_stops_at [OF p(1,2,3) st]
    by (simp add: rc(1))
  with rc(2-5) show ?thesis by blast
qed

lemma locators_agree_cli_Some:
  assumes "get_scimago_ranking_cli http n c y = Inr (Some rc)"
    and "percentile (Rank rc) (Number_journals rc) = Inr pct"
  shows "\<exists>ra. get_scimago_ranking_app http ny n c y = Inr (Some ra)
     \<and> App_Journal ra = Journal rc \<and> App_Quartile ra = Quartile rc
     \<and> App_Percentile ra = pct
     \<and> App_Category_Rank ra = ''#'' @ Rank rc @ '' of '' @ str_total (Number_journals rc)"
proof -
  from cli_run_Some [OF assms(1)] obtain p where p: "1 \<le> p" "p \<le> 100"
    "\<forall>q. 1 \<le> q \<and> q < p \<longrightarrow> page_without_match http n (listing_url c q y)"
    "page_body_cli http n c (listing_url c p y) p = Inr (Return rc)"
    by blast
  from page_body_cli_Return_app [OF p(4) assms(2), of ny y] obtain ra where
    ra: "page_body_app http ny n y (listing_url c p y) = Inr (Return ra)"
      "App_Journal ra = Journal rc" "App_Quartile ra = Quartile rc" "App_Percentile ra = pct"
      "App_Category_Rank ra = ''#'' @ Rank rc @ '' of '' @ str_total (Number_journals rc)"
    by blast
  have "\<not> page_without_match http n (listing_url c p y)"
    using ra(1) page_body_app_Next [of http ny n y "listing_url c p y"] by simp
  then have st: "\<not> page_without_match http n (listing_url c p y) \<or> p = 100" by simp
  have "get_scimago_ranking_app http ny n c y = Inr (Some ra)"
    unfolding get_scimago_ranking_app_def ranking_loop_app_stops_at [OF p(1,2,3) st]
    by (simp add: ra(1))
  with ra(2-5) show ?thesis by blast
qed

lemma locators_agree_cli_None:
  assumes "get_scimago_ranking_cli http n c y = Inr None"
  shows "get_scimago_ranking_app http ny n c y = Inr None"
proof -
  from app_run_returns [of http ny n c y] obtain r where
    r: "get_scimago_ranking_app http ny n c y = Inr r" by blast
  show ?thesis
  proof (cases r)
    case None
    with r show ?thesis by simp
  next
    case (Some ra)
    with r locators_agree_app_Some [of http ny n c y ra] assms show ?thesis by auto
  qed
qed

text \<open>
  C9 (as amended). The two programs agree to this extent. (1) Their category resolvers
  return the same journal title and categories whenever the search yields no candidate,
  a single candidate, or a first candidate whose title equals the query
  case-insensitively. (2) Whenever the interactive form's locator returns a record, the
  command-line locator returns a record of the same row: same journal title, same
  quartile, and the rank text and total from which the form's rank line and percentile
  are computed. (3) Conversely the form returns that record whenever the command-line
  locator returns one whose rank is an integer and whose total is known (and the
  quotient is in the range of a double). (4) When the command-line locator returns
  not-found, so does the form.
\<close>

theorem retrieval_logic_compared:
  "((\<forall>resp a rest. http search_url [(''q'', n)] = Some resp
        \<and> candidates (content resp) = a # rest \<longrightarrow> rest = [] \<or> title_equals n a)
     \<longrightarrow> summary_app (get_journal_categories_app http n)
          = summary_cli (get_journal_categories_cli http n))
   \<and> (get_scimago_ranking_app http ny n c y = Inr (Some ra) \<longrightarrow>
        (\<exists>rc. get_scimago_ranking_cli http n c y = Inr (Some rc)
           \<and> Journal rc = App_Journal ra \<and> Quartile rc = App_Quartile ra
           \<and> percentile (Rank rc) (Number_journals rc) = Inr (App_Percentile ra)
           \<and> App_Category_Rank ra = ''#'' @ Rank rc @ '' of '' @ str_total (Number_journals rc)))
   \<and> (get_scimago_ranking_cli http n c y = Inr (Some rc')
        \<and> percentile (Rank rc') (Number_journals rc') = Inr pct \<longrightarrow>
        (\<exists>ra'. get_scimago_ranking_app http ny n c y = Inr (Some ra')
           \<and> App_Journal ra' = Journal rc' \<and> App_Quartile ra' = Quartile rc'
           \<and> App_Percentile ra' = pct
           \<and> App_Category_Rank ra' = ''#'' @ Rank rc' @ '' of '' @ str_total (Number_journals rc')))
   \<and> (get_scimago_ranking_cli http n c y = Inr None \<longrightarrow>
        get_scimago_ranking_app http ny n c y = Inr None)"
  using categories_agree [of http n] locators_agree_app_Some [of http ny n c y ra]
    locators_agree_cli_Some [of http n c y rc' pct ny] locators_agree_cli_None [of http n c y ny]
  by blast


text \<open>The query "NATURE physics" equals the first candidate's title, and both resolvers
  return "Nature Physics"; on the listing of category 1000 both locators return the row
  of "Nature".\<close>

theorem retrieval_logic_compared_witness:
  "title_equals ''NATURE physics'' (candidate ''journalsearch.php?q=1'' ''Nature Physics'')
   \<and> summary_cli (get_journal_categories_cli http_search ''NATURE physics'') =
       Some (''Nature Physics'', [''Physics and Astronomy''], [''3100''])
   \<and> summary_app (get_journal_categories_app http_search ''NATURE physics'') =
       Some (''Nature Physics'', [''Physics and Astronomy''], [''3100''])
   \<and> get_scimago_ranking_app http_nature 2026 ''nature'' ''1000'' None =
       Inr (Some \<lparr>App_Journal = ''Nature'', App_Category_name = ['' Multidisciplinary''],
                   App_Category_Rank = ''#1 of 1200'', App_Percentile = (100, 1200),
                   App_Quartile = ''Q1'', App_Year = YearNone\<rparr>)
   \<and> (\<exists>rc. get_scimago_ranking_cli http_nature ''nature'' ''1000'' None = Inr (Some rc)
          \<and> Journal rc = ''Nature'' \<and> Quartile rc = ''Q1''
          \<and> percentile (Rank rc) (Number_journals rc) = Inr (100, 1200))"
proof -
  let ?a = "candidate ''journalsearch.php?q=1'' ''Nature Physics''"
  let ?b = "candidate ''journalsearch.php?q=2'' ''Nature''"
  let ?ra = "\<lparr>App_Journal = ''Nature'', App_Category_name = ['' Multidisciplinary''],
                   App_Category_Rank = ''#1 of 1200'', App_Percentile = (100, 1200),
                   App_Quartile = ''Q1'', App_Year = YearNone\<rparr>"
  have c: "candidates search_page = [?a, ?b]" by code_simp
  have te: "title_equals ''NATURE physics'' ?a" by code_simp
  have hyp: "\<forall>resp a rest. http_search search_url [(''q'', ''NATURE physics'')] = Some resp
        \<and> candidates (content resp) = a # rest \<longrightarrow> rest = [] \<or> title_equals ''NATURE physics'' a"
    using c te by (auto simp: http_search_def)
  have sc: "summary_cli (get_journal_categories_cli http_search ''NATURE physics'') =
       Some (''Nature Physics'', [''Physics and Astronomy''], [''3100''])"
    by code_simp
  have e2: "get_scimago_ranking_app http_nature 2026 ''nature'' ''1000'' None = Inr (Some ?ra)"
    by code_simp
  note T1 = retrieval_logic_compared [of http_search "''NATURE physics''" 2026 "''1000''" None
      ?ra _ _]
  note T2 = retrieval_logic_compared [of http_nature "''nature''" 2026 "''1000''" None
      ?ra _ _]
  have sa: "summary_app (get_journal_categories_app http_search ''NATURE physics'') =
       Some (''Nature Physics'', [''Physics and Astronomy''], [''3100''])"
    using T1 [THEN conjunct1, THEN mp, OF hyp] sc by simp
  have "\<exists>rc. get_scimago_ranking_cli http_nature ''nature'' ''1000'' None = Inr (Some rc)
          \<and> Journal rc = App_Journal ?ra \<and> Quartile rc = App_Quartile ?ra
          \<and> percentile (Rank rc) (Number_journals rc) = Inr (App_Percentile ?ra)
          \<and> App_Category_Rank ?ra = ''#'' @ Rank rc @ '' of '' @ str_total (Number_journals rc)"
    using T2 [THEN conjunct2, THEN conjunct1, THEN mp, OF e2] .
  then have ex: "\<exists>rc. get_scimago_ranking_cli http_nature ''nature'' ''1000'' None = Inr (Some rc)
          \<and> Journal rc = ''Nature'' \<and> Quartile rc = ''Q1''
          \<and> percentile (Rank rc) (Number_journals rc) = Inr (100, 1200)"
    by auto
  show ?thesis using te sc sa e2 ex by (intro conjI)
qed

text \<open>C9 as stated fails: for the query "nature" and the same search page the command-line
  program resolves the journal "Nature Physics" and the interactive form "Nature".\<close>

theorem retrieval_logic_differs_counterexample:
  "summary_cli (get_journal_categories_cli http_search ''nature'') =
       Some (''Nature Physics'', [''Physics and Astronomy''], [''3100''])
   \<and> summary_app (get_journal_categories_app http_search ''nature'') =
       Some (''Nature'', [''Multidisciplinary''], [''1000''])
   \<and> summary_cli (get_journal_categories_cli http_search ''nature'')
       \<noteq> summary_app (get_journal_categories_app http_search ''nature'')"
proof -
  have 1: "summary_cli (get_journal_categories_cli http_search ''nature'') =
       Some (''Nature Physics'', [''Physics and Astronomy''], [''3100''])"
    by code_simp
  have 2: "summary_app (get_journal_categories_app http_search ''nature'') =
       Some (''Nature'', [''Multidisciplinary''], [''1000''])"
    by code_simp
  show ?thesis unfolding 1 2 by simp
qed

section \<open>A matched row whose rank or total cannot be used\<close>






text \<open>
  C5. A listing page without pagination links gives no total; its row "Nature" matches the
  query. The interactive form loses the result: dividing by \<^verbatim>\<open>None\<close> raises inside the
  loop and the locator returns not-found. The command-line locator returns the record
  with the total unknown, and the percentile line of its \<^verbatim>\<open>__main__\<close> block then raises.
\<close>

theorem unknown_total_loses_result:
  "get_total_journals small_category_page = None
   \<and> row_matches ''Nature'' (journal_row ''1'' ''Nature'' [''q1''])
   \<and> get_scimago_ranking_app http_small 2026 ''Nature'' ''3300'' None = Inr None
   \<and> get_scimago_ranking_cli http_small ''Nature'' ''3300'' None =
       Inr (Some \<lparr>Journal = ''Nature'', Rank = ''1'', Number_journals = None,
                   Quartile = ''Q1'', Category_ID = ''3300'', Page_Found = 1\<rparr>)
   \<and> main_percentile \<lparr>Journal = ''Nature'', Rank = ''1'', Number_journals = None,
                   Quartile = ''Q1'', Category_ID = ''3300'', Page_Found = 1\<rparr> = Inl TypeError"
proof -
  have 1: "get_total_journals small_category_page = None" by code_simp
  have 2: "row_matches ''Nature'' (journal_row ''1'' ''Nature'' [''q1''])" by code_simp
  have 3: "get_scimago_ranking_app http_small 2026 ''Nature'' ''3300'' None = Inr None"
    by code_simp
  have 4: "get_scimago_ranking_cli http_small ''Nature'' ''3300'' None =
       Inr (Some \<lparr>Journal = ''Nature'', Rank = ''1'', Number_journals = None,
                   Quartile = ''Q1'', Category_ID = ''3300'', Page_Found = 1\<rparr>)"
    by code_simp
  have 5: "main_percentile \<lparr>Journal = ''Nature'', Rank = ''1'', Number_journals = None,
                   Quartile = ''Q1'', Category_ID = ''3300'', Page_Found = 1\<rparr> = Inl TypeError"
    by code_simp
  show ?thesis using 1 2 3 4 5 by (intro conjI)
qed

end
